theory Spec2Isabelle
  imports Main "HOL-Library.Sublist"
begin

section \<open>Strings\<close>

text \<open>
  A JavaScript string is a sequence of UTF-16 code units. The embedding covers the
  strings all of whose code units are below 256 (ISO 8859-1), one \<open>char\<close> per code
  unit. On these strings \<open>String.prototype.toLowerCase\<close> acts unit by unit: the
  capitals are \<open>A\<close>..\<open>Z\<close> (65..90) and 192..222 without the multiplication sign 215,
  and each capital lies 32 below its small letter.
\<close>

definition toLowerCase_unit :: "char \<Rightarrow> char" where
  "toLowerCase_unit c =
     (let n = (of_char c :: nat)
      in if (65 \<le> n \<and> n \<le> 90) \<or> (192 \<le> n \<and> n \<le> 222 \<and> n \<noteq> 215)
         then char_of (n + 32) else c)"

definition toLowerCase :: "string \<Rightarrow> string" where
  "toLowerCase s = map toLowerCase_unit s"

text \<open>\<open>s.includes(k)\<close>: \<open>k\<close> occurs in \<open>s\<close> as a contiguous run of code units.\<close>

definition str_includes :: "string \<Rightarrow> string \<Rightarrow> bool" where
  "str_includes s k = sublist k s"

text \<open>
  The decimal numeral of a non-negative integer, as a template literal prints a
  Number that holds one.
\<close>

definition digit :: "nat \<Rightarrow> char" where
  "digit d = char_of (48 + d)"

fun show_nat :: "nat \<Rightarrow> string" where
  "show_nat n = (if n < 10 then [digit n] else show_nat (n div 10) @ [digit (n mod 10)])"

declare show_nat.simps [simp del]

section \<open>The regular expression of the link search\<close>

text \<open>
  The pattern \<^verbatim>\<open>/https?:\/\/[^\s]+unsubscribe[^\s]*/i\<close> is a sequence of terms, each
  an atom taken once, optionally (\<^verbatim>\<open>?\<close>), once or more (\<^verbatim>\<open>+\<close>) or any number of times
  (\<^verbatim>\<open>*\<close>). Its atoms are pattern characters and the class \<^verbatim>\<open>[^\s]\<close>.
\<close>

datatype atom = Chr char | NotSpace

datatype item = One atom | Opt atom | Plus atom | Star atom

text \<open>The code units below 256 that \<^verbatim>\<open>\s\<close> matches: TAB, LF, VT, FF, CR, SP, NBSP.\<close>

definition whiteSpace :: "char list" where
  "whiteSpace = map char_of [9, 10, 11, 12, 13, 32, 160 :: nat]"

text \<open>
  Under the flag \<^verbatim>\<open>i\<close> two code units are compared after \<open>Canonicalize\<close>, which maps
  a unit to its capital when that is a single code unit. Below 256 the small letters
  with such a capital below 256 are \<open>a\<close>..\<open>z\<close> and 224..254 without the division sign
  247; the capitals of 181 and 255 lie above 255 and are the capital of no other unit
  below 256, so both are left in place.
\<close>

definition canonicalize :: "char \<Rightarrow> char" where
  "canonicalize c =
     (let n = (of_char c :: nat)
      in if (97 \<le> n \<and> n \<le> 122) \<or> (224 \<le> n \<and> n \<le> 254 \<and> n \<noteq> 247)
         then char_of (n - 32) else c)"

fun atomMatches :: "atom \<Rightarrow> char \<Rightarrow> bool" where
  "atomMatches (Chr p) c = (canonicalize c = canonicalize p)"
| "atomMatches NotSpace c = (\<not> list_ex (\<lambda>a. canonicalize a = canonicalize c) whiteSpace)"

text \<open>
  The backtracking matcher at one start position; the result is the matched text.
  A greedy quantifier first takes the atom and gives it back when the rest of the
  pattern fails after it.
\<close>

fun matchHere :: "item list \<Rightarrow> string \<Rightarrow> string option" where
  "matchHere [] s = Some []"
| "matchHere (One a # p) [] = None"
| "matchHere (One a # p) (c # s) =
     (if atomMatches a c then map_option ((#) c) (matchHere p s) else None)"
| "matchHere (Opt a # p) [] = matchHere p []"
| "matchHere (Opt a # p) (c # s) =
     (if atomMatches a c
      then (case matchHere p s of Some m \<Rightarrow> Some (c # m) | None \<Rightarrow> matchHere p (c # s))
      else matchHere p (c # s))"
| "matchHere (Plus a # p) [] = None"
| "matchHere (Plus a # p) (c # s) =
     (if atomMatches a c then map_option ((#) c) (matchHere (Star a # p) s) else None)"
| "matchHere (Star a # p) [] = matchHere p []"
| "matchHere (Star a # p) (c # s) =
     (if atomMatches a c
      then (case matchHere (Star a # p) s of Some m \<Rightarrow> Some (c # m)
            | None \<Rightarrow> matchHere p (c # s))
      else matchHere p (c # s))"

text \<open>
  \<open>s.match(re)\<close> for a pattern without the flag \<^verbatim>\<open>g\<close>: the start positions are tried
  from the left, the end of the string included; \<open>None\<close> is \<open>null\<close>, \<open>Some m\<close> an
  array whose element 0 is \<open>m\<close>.
\<close>

fun str_match :: "string \<Rightarrow> item list \<Rightarrow> string option" where
  "str_match [] re = matchHere re []"
| "str_match (c # s) re =
     (case matchHere re (c # s) of Some m \<Rightarrow> Some m | None \<Rightarrow> str_match s re)"

definition lits :: "string \<Rightarrow> item list" where
  "lits s = map (\<lambda>c. One (Chr c)) s"

definition unsubscribeRegex :: "item list" where
  "unsubscribeRegex =
     lits ''http'' @ [Opt (Chr CHR ''s'')] @ lits ''://'' @ [Plus NotSpace]
       @ lits ''unsubscribe'' @ [Star NotSpace]"

section \<open>Classification of one email\<close>

text \<open>A value of type \<open>any\<close>, as \<open>JSON.parse\<close> produces them.\<close>

datatype jsvalue =
    JNull | JBool bool | JNum int | JStr string
  | JArr "jsvalue list" | JObj "(string \<times> jsvalue) list"

record EmailData =
  email_id :: string
  email_from :: string
  email_subject :: string
  email_date :: string
  email_body :: string
  email_headers :: jsvalue

datatype classification = Marketing | Important

record EmailResult =
  result_id :: string
  result_from :: string
  result_subject :: string
  result_date :: string
  classification :: classification
  action :: string
  reason :: string
  unsubscribeLink :: "string option"

definition marketingKeywords :: "string list" where
  "marketingKeywords =
     [''unsubscribe'', ''promotional'', ''sale'', ''discount'', ''offer'', ''deal'',
      ''newsletter'', ''marketing'', ''advertisement'', ''promo'', ''limited time'',
      ''buy now'', ''shop now'', ''exclusive'', ''free shipping'', ''save now'',
      ''special offer'', ''subscribe'', ''notification'', ''update'', ''digest'']"

definition importantKeywords :: "string list" where
  "importantKeywords =
     [''invoice'', ''receipt'', ''payment'', ''account'', ''security'', ''alert'',
      ''verification'', ''confirm'', ''reset password'', ''bank'', ''statement'',
      ''bill'', ''transaction'', ''urgent'', ''action required'', ''contract'',
      ''meeting'', ''appointment'', ''deadline'', ''legal'', ''tax'']"

text \<open>
  The two \<open>forEach\<close> iterations: the table is walked in order and the counter goes up by
  one at each keyword that the subject or the body includes.
\<close>

fun countKeywords :: "string list \<Rightarrow> string \<Rightarrow> string \<Rightarrow> nat \<Rightarrow> nat" where
  "countKeywords [] subject body score = score"
| "countKeywords (keyword # keywords) subject body score =
     countKeywords keywords subject body
       (if str_includes subject keyword \<or> str_includes body keyword then score + 1 else score)"

text \<open>The truth value of an optional string in a condition: \<open>undefined\<close> and \<open>""\<close> are false.\<close>

fun truthy :: "string option \<Rightarrow> bool" where
  "truthy None = False"
| "truthy (Some s) = (s \<noteq> [])"

text \<open>
  Lines 35 to 83 of \<open>classifyEmail\<close>: the values of \<open>marketingScore\<close>,
  \<open>importantScore\<close> and \<open>unsubscribeLink\<close> when the classification is made.
\<close>

definition scores :: "EmailData \<Rightarrow> nat \<times> nat \<times> string option" where
  "scores email =
     (let subject = toLowerCase (email_subject email);
          from = toLowerCase (email_from email);
          body = toLowerCase (email_body email);
          marketingScore = countKeywords marketingKeywords subject body 0;
          importantScore = countKeywords importantKeywords subject body 0;
          marketingScore =
            (if str_includes from ''noreply'' \<or> str_includes from ''no-reply''
                \<or> str_includes from ''marketing''
             then marketingScore + 2 else marketingScore);
          importantScore =
            (if str_includes from ''admin'' \<or> str_includes from ''support''
                \<or> str_includes from ''billing''
             then importantScore + 2 else importantScore);
          unsubscribeMatch = str_match body unsubscribeRegex;
          unsubscribeLink = (case unsubscribeMatch of Some m \<Rightarrow> Some m | None \<Rightarrow> None);
          marketingScore = (if truthy unsubscribeLink then marketingScore + 3 else marketingScore)
      in (marketingScore, importantScore, unsubscribeLink))"

definition marketingScore :: "EmailData \<Rightarrow> nat" where
  "marketingScore email = fst (scores email)"

definition importantScore :: "EmailData \<Rightarrow> nat" where
  "importantScore email = fst (snd (scores email))"

definition foundLink :: "EmailData \<Rightarrow> string option" where
  "foundLink email = snd (snd (scores email))"

definition classifyEmail :: "EmailData \<Rightarrow> EmailResult" where
  "classifyEmail email =
     (let (marketingScore, importantScore, unsubscribeLink) = scores email;
          isMarketing = (marketingScore > importantScore)
      in \<lparr> result_id = email_id email,
           result_from = email_from email,
           result_subject = email_subject email,
           result_date = email_date email,
           classification = (if isMarketing then Marketing else Important),
           action =
             (if isMarketing
              then (if truthy unsubscribeLink then ''Unsubscribe available''
                    else ''Mark as spam or delete'')
              else ''Keep and respond professionally if needed''),
           reason =
             (if isMarketing
              then ''Marketing email detected (score: '' @ show_nat marketingScore
                     @ ''). Contains promotional content.''
              else ''Important email detected (score: '' @ show_nat importantScore
                     @ ''). Requires attention.''),
           unsubscribeLink = unsubscribeLink \<rparr>)"

section \<open>Classification of an object read from JSON\<close>

text \<open>
  At run time the argument of \<open>classifyEmail\<close> is an object: a property may be
  absent (\<open>None\<close>, the value \<open>undefined\<close>) or hold a value that is no string. The
  call \<open>x.toLowerCase()\<close> raises a \<open>TypeError\<close> unless \<open>x\<close> is a string; no other
  step of lines 34 to 102 can raise. \<open>classifyEmail_js\<close> follows these lines on
  such objects, with the label as the string that the result carries.
\<close>

datatype error = TypeError

record EmailObject =
  obj_id :: "jsvalue option"
  obj_from :: "jsvalue option"
  obj_subject :: "jsvalue option"
  obj_date :: "jsvalue option"
  obj_body :: "jsvalue option"
  obj_headers :: "jsvalue option"

record ResultObject =
  res_id :: "jsvalue option"
  res_from :: "jsvalue option"
  res_subject :: "jsvalue option"
  res_date :: "jsvalue option"
  res_classification :: string
  res_action :: string
  res_reason :: string
  res_unsubscribeLink :: "string option"

fun asString :: "jsvalue option \<Rightarrow> string option" where
  "asString (Some (JStr s)) = Some s"
| "asString v = None"

definition toLowerCase_js :: "jsvalue option \<Rightarrow> error + string" where
  "toLowerCase_js v = (case asString v of None \<Rightarrow> Inl TypeError | Some s \<Rightarrow> Inr (toLowerCase s))"

definition classifyEmail_js :: "EmailObject \<Rightarrow> error + ResultObject" where
  "classifyEmail_js email =
     (case toLowerCase_js (obj_subject email) of Inl err \<Rightarrow> Inl err | Inr subject \<Rightarrow>
      case toLowerCase_js (obj_from email) of Inl err \<Rightarrow> Inl err | Inr from \<Rightarrow>
      case toLowerCase_js (obj_body email) of Inl err \<Rightarrow> Inl err | Inr body \<Rightarrow>
        (let marketingScore = countKeywords marketingKeywords subject body 0;
             importantScore = countKeywords importantKeywords subject body 0;
             marketingScore =
               (if str_includes from ''noreply'' \<or> str_includes from ''no-reply''
                   \<or> str_includes from ''marketing''
                then marketingScore + 2 else marketingScore);
             importantScore =
               (if str_includes from ''admin'' \<or> str_includes from ''support''
                   \<or> str_includes from ''billing''
                then importantScore + 2 else importantScore);
             unsubscribeMatch = str_match body unsubscribeRegex;
             unsubscribeLink = (case unsubscribeMatch of Some m \<Rightarrow> Some m | None \<Rightarrow> None);
             marketingScore =
               (if truthy unsubscribeLink then marketingScore + 3 else marketingScore);
             isMarketing = (marketingScore > importantScore)
         in Inr \<lparr> res_id = obj_id email,
                  res_from = obj_from email,
                  res_subject = obj_subject email,
                  res_date = obj_date email,
                  res_classification = (if isMarketing then ''marketing'' else ''important''),
                  res_action =
                    (if isMarketing
                     then (if truthy unsubscribeLink then ''Unsubscribe available''
                           else ''Mark as spam or delete'')
                     else ''Keep and respond professionally if needed''),
                  res_reason =
                    (if isMarketing
                     then ''Marketing email detected (score: '' @ show_nat marketingScore
                            @ ''). Contains promotional content.''
                     else ''Important email detected (score: '' @ show_nat importantScore
                            @ ''). Requires attention.''),
                  res_unsubscribeLink = unsubscribeLink \<rparr>))"

text \<open>A well-formed object: \<open>id\<close>, \<open>from\<close>, \<open>subject\<close>, \<open>date\<close> and \<open>body\<close> are strings.\<close>

definition wellFormed :: "EmailObject \<Rightarrow> bool" where
  "wellFormed email =
     (asString (obj_id email) \<noteq> None \<and> asString (obj_from email) \<noteq> None
      \<and> asString (obj_subject email) \<noteq> None \<and> asString (obj_date email) \<noteq> None
      \<and> asString (obj_body email) \<noteq> None)"

text \<open>
  The typed record of a well-formed object and the object of a typed result: on
  well-formed objects \<open>classifyEmail_js\<close> is \<open>classifyEmail\<close>.
\<close>

definition asEmailData :: "EmailObject \<Rightarrow> EmailData option" where
  "asEmailData email =
     (case asString (obj_id email) of None \<Rightarrow> None | Some i \<Rightarrow>
      case asString (obj_from email) of None \<Rightarrow> None | Some f \<Rightarrow>
      case asString (obj_subject email) of None \<Rightarrow> None | Some s \<Rightarrow>
      case asString (obj_date email) of None \<Rightarrow> None | Some d \<Rightarrow>
      case asString (obj_body email) of None \<Rightarrow> None | Some b \<Rightarrow>
        Some \<lparr> email_id = i, email_from = f, email_subject = s, email_date = d, email_body = b,
               email_headers = (case obj_headers email of None \<Rightarrow> JNull | Some h \<Rightarrow> h) \<rparr>)"

definition asResultObject :: "EmailResult \<Rightarrow> ResultObject" where
  "asResultObject r =
     \<lparr> res_id = Some (JStr (result_id r)), res_from = Some (JStr (result_from r)),
       res_subject = Some (JStr (result_subject r)), res_date = Some (JStr (result_date r)),
       res_classification =
         (case classification r of Marketing \<Rightarrow> ''marketing'' | Important \<Rightarrow> ''important''),
       res_action = action r, res_reason = reason r,
       res_unsubscribeLink = unsubscribeLink r \<rparr>"

section \<open>The request handler\<close>

record EmailConfig =
  provider :: string
  email :: string
  password :: string
  imapHost :: string
  imapPort :: string
  maxEmails :: "string option"
  autoUnsubscribe :: bool

text \<open>
  The field \<open>maxEmails\<close> is \<open>None\<close> when the request body has no such property;
  \<open>parseInt\<close> then reads the string \<open>"undefined"\<close>.
\<close>

definition toString :: "string option \<Rightarrow> string" where
  "toString v = (case v of None \<Rightarrow> ''undefined'' | Some s \<Rightarrow> s)"

text \<open>
  \<open>parseInt\<close> with one argument: leading white space is dropped, then a sign, then
  \<open>0x\<close> or \<open>0X\<close> (which selects radix 16, otherwise 10); the digits that follow are
  read up to the first unit that is no digit of the radix. \<open>None\<close> is \<open>NaN\<close>. The
  result is the exact integer; the Number returned by JavaScript is that integer
  rounded, which has the same sign, is zero in the same cases, is the same below
  \<open>2^53\<close> in magnitude and lies on the same side of 100, and \<open>POST\<close> reads nothing else
  of it.
\<close>

definition digitValue :: "char \<Rightarrow> nat option" where
  "digitValue c =
     (let n = (of_char c :: nat)
      in if 48 \<le> n \<and> n \<le> 57 then Some (n - 48)
         else if 97 \<le> n \<and> n \<le> 122 then Some (n - 87)
         else if 65 \<le> n \<and> n \<le> 90 then Some (n - 55)
         else None)"

definition isDigitOf :: "nat \<Rightarrow> char \<Rightarrow> bool" where
  "isDigitOf R c = (case digitValue c of None \<Rightarrow> False | Some d \<Rightarrow> d < R)"

definition digitsValue :: "nat \<Rightarrow> string \<Rightarrow> nat" where
  "digitsValue R Z =
     foldl (\<lambda>acc c. acc * R + (case digitValue c of None \<Rightarrow> 0 | Some d \<Rightarrow> d)) 0 Z"

definition parseInt :: "string \<Rightarrow> int option" where
  "parseInt inputString =
     (let S = dropWhile (\<lambda>c. c \<in> set whiteSpace) inputString;
          sign = (if S \<noteq> [] \<and> hd S = CHR ''-'' then - 1 else 1 :: int);
          S = (if S \<noteq> [] \<and> (hd S = CHR ''+'' \<or> hd S = CHR ''-'') then tl S else S);
          stripPrefix = (2 \<le> length S \<and> (take 2 S = ''0x'' \<or> take 2 S = ''0X''));
          R = (if stripPrefix then 16 else 10 :: nat);
          S = (if stripPrefix then drop 2 S else S);
          Z = takeWhile (isDigitOf R) S
      in if Z = [] then None else Some (sign * int (digitsValue R Z)))"

text \<open>\<open>parseInt(v) || 50\<close>: \<open>NaN\<close> and zero are false.\<close>

definition orFifty :: "int option \<Rightarrow> int" where
  "orFifty v = (case v of None \<Rightarrow> 50 | Some n \<Rightarrow> if n = 0 then 50 else n)"

text \<open>
  The table of \<open>generateDemoEmails\<close>. \<open>toISO t\<close> stands for
  \<open>new Date(t).toISOString()\<close> and \<open>now k\<close> for the value of the call number \<open>k\<close> of
  \<open>Date.now()\<close> in one run of the function: calls 0 to 5 build the table, call
  \<open>6 + i\<close> belongs to round \<open>i\<close> of the loop. The subjects of entries 1 and 5 hold
  characters above 255 (U+1F389; U+2764 U+FE0F); here they are written in UTF-8, one
  unit for each byte, none of which is a capital, white space or part of a keyword.
\<close>

definition demoEmails :: "(int \<Rightarrow> string) \<Rightarrow> (nat \<Rightarrow> int) \<Rightarrow> EmailData list" where
  "demoEmails toISO now =
     [\<lparr> email_id = ''1'',
        email_from = ''newsletter@techcompany.com'',
        email_subject =
          [CHR 0xF0, CHR 0x9F, CHR 0x8E, CHR 0x89] @ '' Exclusive 50% OFF Sale - Limited Time!'',
        email_date = toISO (now 0 - 1000 * 60 * 60 * 2),
        email_body = ''Hi there! Don't miss our biggest sale of the year. Get 50% off all products. Shop now! Click here to unsubscribe: https://techcompany.com/unsubscribe?id=123'',
        email_headers = JObj [] \<rparr>,
      \<lparr> email_id = ''2'',
        email_from = ''billing@yourbank.com'',
        email_subject = ''Your Monthly Statement is Ready'',
        email_date = toISO (now 1 - 1000 * 60 * 60 * 24),
        email_body = ''Your bank statement for this month is now available. Please review your transactions. Contact us if you have any questions.'',
        email_headers = JObj [] \<rparr>,
      \<lparr> email_id = ''3'',
        email_from = ''noreply@deals.com'',
        email_subject = ''Today Only: Free Shipping on Everything!'',
        email_date = toISO (now 2 - 1000 * 60 * 60 * 5),
        email_body = ''Amazing deal alert! Free shipping on all orders today only. Don't wait! Unsubscribe here: https://deals.com/unsubscribe'',
        email_headers = JObj [] \<rparr>,
      \<lparr> email_id = ''4'',
        email_from = ''support@company.com'',
        email_subject = ''Security Alert: New Login Detected'',
        email_date = toISO (now 3 - 1000 * 60 * 30),
        email_body = ''We detected a new login to your account from a new device. If this wasn't you, please reset your password immediately.'',
        email_headers = JObj [] \<rparr>,
      \<lparr> email_id = ''5'',
        email_from = ''marketing@fashion.com'',
        email_subject =
          ''New Arrivals You'll Love '' @ [CHR 0xE2, CHR 0x9D, CHR 0xA4, CHR 0xEF, CHR 0xB8, CHR 0x8F],
        email_date = toISO (now 4 - 1000 * 60 * 60 * 12),
        email_body = ''Check out our latest collection! Spring fashion is here. Browse now and enjoy exclusive discounts. Unsubscribe: https://fashion.com/unsub'',
        email_headers = JObj [] \<rparr>,
      \<lparr> email_id = ''6'',
        email_from = ''admin@workspace.com'',
        email_subject = ''Action Required: Verify Your Account'',
        email_date = toISO (now 5 - 1000 * 60 * 60 * 3),
        email_body = ''Your account verification is pending. Please verify your email address within 24 hours to maintain access to your account.'',
        email_headers = JObj [] \<rparr>]"

text \<open>
  The loop of \<open>generateDemoEmails\<close>, from round \<open>i\<close> with the list built so far. The
  index \<open>i mod 6\<close> is always inside the table.
\<close>

function demoLoop ::
  "(int \<Rightarrow> string) \<Rightarrow> (nat \<Rightarrow> int) \<Rightarrow> int \<Rightarrow> nat \<Rightarrow> EmailData list \<Rightarrow> EmailData list" where
  "demoLoop toISO now count i emails =
     (if int i < count
      then (let template = demoEmails toISO now ! (i mod length (demoEmails toISO now))
            in demoLoop toISO now count (i + 1)
                 (emails @ [template\<lparr> email_id := show_nat (i + 1),
                                       email_date := toISO (now (6 + i) - 1000 * 60 * 60 * int i) \<rparr>]))
      else emails)"
  by pat_completeness auto
termination
  by (relation "measure (\<lambda>(toISO, now, count, i, emails). nat (count - int i))") auto

declare demoLoop.simps [simp del]

definition generateDemoEmails ::
  "(int \<Rightarrow> string) \<Rightarrow> (nat \<Rightarrow> int) \<Rightarrow> int \<Rightarrow> EmailData list" where
  "generateDemoEmails toISO now count = demoLoop toISO now count 0 []"

record Stats =
  stats_total :: nat
  stats_marketing :: nat
  stats_important :: nat
  stats_unsubscribed :: nat

text \<open>
  Lines 181 to 200 of \<open>POST\<close>, as a function of the emails and of
  \<open>config.autoUnsubscribe\<close>: the results, the statistics computed from them, and
  the results after the simulated unsubscription has rewritten them in place.
\<close>

definition classifyBatch :: "EmailData list \<Rightarrow> bool \<Rightarrow> EmailResult list \<times> Stats" where
  "classifyBatch emails autoUnsub =
     (let results = map classifyEmail emails;
          stats =
            \<lparr> stats_total = length results,
              stats_marketing = length (filter (\<lambda>r. classification r = Marketing) results),
              stats_important = length (filter (\<lambda>r. classification r = Important) results),
              stats_unsubscribed =
                (if autoUnsub
                 then length (filter (\<lambda>r. classification r = Marketing
                                          \<and> truthy (unsubscribeLink r)) results)
                 else 0) \<rparr>;
          results =
            (if autoUnsub
             then map (\<lambda>result.
                    if classification result = Marketing \<and> truthy (unsubscribeLink result)
                    then result\<lparr> action := ''Successfully unsubscribed'' \<rparr>
                    else result) results
             else results)
      in (results, stats))"

text \<open>
  The response: the analysis, or status 500 with the message of the error caught.
  The request body is \<open>Inr config\<close> when \<open>request.json()\<close> yields a configuration
  and \<open>Inl msg\<close> when it fails with an error whose message is \<open>msg\<close>.
\<close>

datatype response = Analysis "EmailResult list" Stats | Failure string string

text \<open>Line 177: \<open>Math.min(parseInt(config.maxEmails) || 50, 100)\<close>.\<close>

definition batchSize :: "EmailConfig \<Rightarrow> int" where
  "batchSize config = min (orFifty (parseInt (toString (maxEmails config)))) 100"

definition POST ::
  "(int \<Rightarrow> string) \<Rightarrow> (nat \<Rightarrow> int) \<Rightarrow> string + EmailConfig \<Rightarrow> response" where
  "POST toISO now request =
     (case request of
        Inl msg \<Rightarrow> Failure ''Failed to analyze emails'' msg
      | Inr config \<Rightarrow>
          (let maxEmails = batchSize config;
               emails = generateDemoEmails toISO now maxEmails;
               (results, stats) = classifyBatch emails (autoUnsubscribe config)
           in Analysis results stats))"

section \<open>Notions of the specification\<close>

text \<open>
  The texts a pattern denotes, without regard to the order in which the matcher
  tries them.
\<close>

fun lang :: "item list \<Rightarrow> string set" where
  "lang [] = {[]}"
| "lang (One a # p) = {c # w | c w. atomMatches a c \<and> w \<in> lang p}"
| "lang (Opt a # p) = lang p \<union> {c # w | c w. atomMatches a c \<and> w \<in> lang p}"
| "lang (Plus a # p) =
     {c # cs @ w | c cs w. atomMatches a c \<and> list_all (atomMatches a) cs \<and> w \<in> lang p}"
| "lang (Star a # p) = {cs @ w | cs w. list_all (atomMatches a) cs \<and> w \<in> lang p}"

text \<open>Two texts that differ in letter case only.\<close>

definition eq_ci :: "string \<Rightarrow> string \<Rightarrow> bool" where
  "eq_ci u v = (map canonicalize u = map canonicalize v)"

text \<open>
  The grammar of the pattern: \<open>http://\<close> or \<open>https://\<close>, a run of units that are
  not white space and of which there is at least one (the \<^verbatim>\<open>+\<close> of the pattern), the
  word \<open>unsubscribe\<close>, and a further such run, which may be empty; letter case is not
  regarded.
\<close>

definition unsubscribeUrl :: "string \<Rightarrow> bool" where
  "unsubscribeUrl w =
     (\<exists>scheme before word after.
        w = scheme @ before @ word @ after
        \<and> (eq_ci scheme ''http://'' \<or> eq_ci scheme ''https://'')
        \<and> before \<noteq> []
        \<and> list_all (\<lambda>c. c \<notin> set whiteSpace) (before @ after)
        \<and> eq_ci word ''unsubscribe'')"

definition containsUnsubscribeUrl :: "string \<Rightarrow> bool" where
  "containsUnsubscribeUrl s = (\<exists>w. unsubscribeUrl w \<and> sublist w s)"

text \<open>
  The grammar of the specification (section 4.2): the same, but either run around the
  word may be empty.
\<close>

definition specUnsubscribeUrl :: "string \<Rightarrow> bool" where
  "specUnsubscribeUrl w =
     (\<exists>scheme before word after.
        w = scheme @ before @ word @ after
        \<and> (eq_ci scheme ''http://'' \<or> eq_ci scheme ''https://'')
        \<and> list_all (\<lambda>c. c \<notin> set whiteSpace) (before @ after)
        \<and> eq_ci word ''unsubscribe'')"

definition containsSpecUnsubscribeUrl :: "string \<Rightarrow> bool" where
  "containsSpecUnsubscribeUrl s = (\<exists>w. specUnsubscribeUrl w \<and> sublist w s)"

text \<open>
  A keyword, itself in small letters, occurs in a text as a case-insensitive
  substring: some contiguous part of the text is the keyword once its capitals are
  made small.
\<close>

definition occurs_ci :: "string \<Rightarrow> string \<Rightarrow> bool" where
  "occurs_ci keyword s = (\<exists>t. sublist t s \<and> toLowerCase t = keyword)"

section \<open>Sample inputs\<close>

text \<open>An email with empty subject and body, from a sender that earns no bonus.\<close>

definition emptyEmail :: EmailData where
  "emptyEmail =
     \<lparr> email_id = ''1'', email_from = ''x@example.com'', email_subject = [],
       email_date = ''2026-01-01T00:00:00.000Z'', email_body = [],
       email_headers = JObj [] \<rparr>"

text \<open>The word \<open>unsubscribe\<close> in running text, without a link.\<close>

definition plainWordEmail :: EmailData where
  "plainWordEmail = emptyEmail \<lparr> email_body := ''Reply to unsubscribe'' \<rparr>"

text \<open>A link written with capitals.\<close>

definition mixedCaseEmail :: EmailData where
  "mixedCaseEmail = emptyEmail \<lparr> email_body := ''https://Example.com/Unsubscribe?ID=A1'' \<rparr>"

text \<open>A link in an email whose two scores are both 5.\<close>

definition billingEmail :: EmailData where
  "billingEmail =
     emptyEmail \<lparr> email_from := ''billing@bank.com'',
                  email_subject := ''invoice receipt payment'',
                  email_body := ''http://a/unsubscribe'' \<rparr>"

text \<open>The same email under another identifier, date and headers.\<close>

definition billingEmailCopy :: EmailData where
  "billingEmailCopy =
     billingEmail \<lparr> email_id := ''2'', email_date := ''2026-02-02T00:00:00.000Z'',
                    email_headers := JObj [(''List-Unsubscribe'', JStr ''https://a/u'')] \<rparr>"

text \<open>An email that is classified as marketing and carries a link.\<close>

definition promoEmail :: EmailData where
  "promoEmail = emptyEmail \<lparr> email_body := ''http://a/unsubscribe'' \<rparr>"

text \<open>A link whose host begins with the word, so that nothing stands before it.\<close>

definition hostEmail :: EmailData where
  "hostEmail = emptyEmail \<lparr> email_body := ''https://unsubscribe.example.com/u?id=1'' \<rparr>"

text \<open>A well-formed object, and the same object with a number for its body.\<close>

definition saleObject :: EmailObject where
  "saleObject =
     \<lparr> obj_id = Some (JStr ''7''), obj_from = Some (JStr ''noreply@shop.com''),
       obj_subject = Some (JStr ''Sale''), obj_date = Some (JStr ''2026-01-01T00:00:00.000Z''),
       obj_body = Some (JStr ''http://a/unsubscribe''), obj_headers = None \<rparr>"

definition numberObject :: EmailObject where
  "numberObject = saleObject \<lparr> obj_body := Some (JNum 5) \<rparr>"

definition negativeConfig :: EmailConfig where
  "negativeConfig =
     \<lparr> provider = ''gmail'', email = [], password = [], imapHost = ''imap.gmail.com'',
       imapPort = ''993'', maxEmails = Some ''-5'', autoUnsubscribe = False \<rparr>"

definition wordConfig :: EmailConfig where
  "wordConfig = negativeConfig \<lparr> maxEmails := Some ''many'' \<rparr>"

text \<open>A clock that stands still at the epoch and a date format that prints nothing.\<close>

definition stoppedClock :: "nat \<Rightarrow> int" where
  "stoppedClock k = 0"

definition noDate :: "int \<Rightarrow> string" where
  "noDate t = []"

definition noStats :: Stats where
  "noStats =
     \<lparr> stats_total = 0, stats_marketing = 0, stats_important = 0, stats_unsubscribed = 0 \<rparr>"

section \<open>Code units\<close>

lemma of_char_less: "(of_char c :: nat) < 256"
proof -
  have "(of_char c :: nat) mod 256 < 256" by simp
  then show ?thesis by (simp only: of_char_mod_256)
qed

lemma sub_32_mod_256: "((of_char c :: nat) - 32) mod 256 = of_char c - 32"
proof -
  have "(of_char c :: nat) - 32 \<le> of_char c" by (rule diff_le_self)
  also have "\<dots> < 256" by (rule of_char_less)
  finally show ?thesis by (rule mod_less)
qed

lemma of_char_sub_32: "(of_char (char_of ((of_char c :: nat) - 32)) :: nat) = of_char c - 32"
  by (simp only: of_char_of sub_32_mod_256)

lemma canonicalize_small_letter:
  "(97 \<le> (of_char c :: nat) \<and> (of_char c :: nat) \<le> 122)
         \<or> (224 \<le> (of_char c :: nat) \<and> (of_char c :: nat) \<le> 254 \<and> (of_char c :: nat) \<noteq> 247)
   \<Longrightarrow> canonicalize c = char_of ((of_char c :: nat) - 32)"
  unfolding canonicalize_def Let_def by (rule if_P)

lemma canonicalize_other:
  "\<not> ((97 \<le> (of_char c :: nat) \<and> (of_char c :: nat) \<le> 122)
         \<or> (224 \<le> (of_char c :: nat) \<and> (of_char c :: nat) \<le> 254 \<and> (of_char c :: nat) \<noteq> 247))
   \<Longrightarrow> canonicalize c = c"
  unfolding canonicalize_def Let_def by (rule if_not_P)


lemma of_char_canonicalize:
  "(of_char (canonicalize c) :: nat) =
     (if (97 \<le> (of_char c :: nat) \<and> (of_char c :: nat) \<le> 122)
         \<or> (224 \<le> (of_char c :: nat) \<and> (of_char c :: nat) \<le> 254 \<and> (of_char c :: nat) \<noteq> 247)
      then of_char c - 32 else of_char c)"
  (is "_ = (if ?P then _ else _)")
proof (cases ?P)
  case True
  from canonicalize_small_letter [OF True] have "(of_char (canonicalize c) :: nat) = of_char c - 32"
    by (simp only: of_char_sub_32)
  with True show ?thesis by (simp only: if_True)
next
  case False
  from canonicalize_other [OF False] have "(of_char (canonicalize c) :: nat) = of_char c"
    by (simp only:)
  with False show ?thesis by (simp only: if_False)
qed

lemma eq_char_of_iff: "c = char_of (n::nat) \<longleftrightarrow> of_char c = n mod 256"
proof -
  have "c = char_of n \<longleftrightarrow> char_of n = c" by (rule eq_commute)
  also have "\<dots> \<longleftrightarrow> take_bit 8 n = of_char c" by (rule char_of_eq_iff)
  also have "\<dots> \<longleftrightarrow> of_char c = take_bit 8 n" by (rule eq_commute)
  also have "take_bit 8 n = n mod 256" by (simp add: take_bit_eq_mod)
  finally show ?thesis .
qed

lemma in_whiteSpace_iff:
  "c \<in> set whiteSpace \<longleftrightarrow> (of_char c :: nat) \<in> {9, 10, 11, 12, 13, 32, 160}"
  by (simp add: whiteSpace_def eq_char_of_iff)

lemma whiteSpace_canonicalize:
  "canonicalize c \<in> set whiteSpace \<longleftrightarrow> c \<in> set whiteSpace"
  unfolding in_whiteSpace_iff of_char_canonicalize by auto

lemma canonicalize_whiteSpace: "a \<in> set whiteSpace \<Longrightarrow> canonicalize a = a"
  unfolding in_whiteSpace_iff by (rule canonicalize_other) auto


lemma toLowerCase_unit_capital:
  "(65 \<le> (of_char c :: nat) \<and> (of_char c :: nat) \<le> 90)
         \<or> (192 \<le> (of_char c :: nat) \<and> (of_char c :: nat) \<le> 222 \<and> (of_char c :: nat) \<noteq> 215)
   \<Longrightarrow> toLowerCase_unit c = char_of ((of_char c :: nat) + 32)"
  unfolding toLowerCase_unit_def Let_def by (rule if_P)

lemma toLowerCase_unit_other:
  "\<not> ((65 \<le> (of_char c :: nat) \<and> (of_char c :: nat) \<le> 90)
         \<or> (192 \<le> (of_char c :: nat) \<and> (of_char c :: nat) \<le> 222 \<and> (of_char c :: nat) \<noteq> 215))
   \<Longrightarrow> toLowerCase_unit c = c"
  unfolding toLowerCase_unit_def Let_def by (rule if_not_P)

lemma of_char_toLowerCase_unit:
  "(of_char (toLowerCase_unit c) :: nat) =
     (if (65 \<le> (of_char c :: nat) \<and> (of_char c :: nat) \<le> 90)
         \<or> (192 \<le> (of_char c :: nat) \<and> (of_char c :: nat) \<le> 222 \<and> (of_char c :: nat) \<noteq> 215)
      then of_char c + 32 else of_char c)"
  (is "_ = (if ?P then _ else _)")
proof (cases ?P)
  case True
  then have "(of_char c :: nat) + 32 < 256" by arith
  then have "((of_char c :: nat) + 32) mod 256 = of_char c + 32" by (rule mod_less)
  with toLowerCase_unit_capital [OF True] have "(of_char (toLowerCase_unit c) :: nat) = of_char c + 32"
    by (simp only: of_char_of)
  with True show ?thesis by (simp only: if_True)
next
  case False
  from toLowerCase_unit_other [OF False] have "(of_char (toLowerCase_unit c) :: nat) = of_char c"
    by (simp only:)
  with False show ?thesis by (simp only: if_False)
qed

lemma whiteSpace_toLowerCase_unit:
  "toLowerCase_unit c \<in> set whiteSpace \<longleftrightarrow> c \<in> set whiteSpace"
  unfolding in_whiteSpace_iff of_char_toLowerCase_unit by auto

lemma canonicalize_toLowerCase_unit: "canonicalize (toLowerCase_unit c) = canonicalize c"
proof -
  have "(of_char (canonicalize (toLowerCase_unit c)) :: nat) = of_char (canonicalize c)"
    unfolding of_char_canonicalize of_char_toLowerCase_unit by auto
  then show ?thesis by (simp only: of_char_eq_iff)
qed

lemma notSpace_iff: "atomMatches NotSpace c \<longleftrightarrow> c \<notin> set whiteSpace"
proof -
  have "list_ex (\<lambda>a. canonicalize a = canonicalize c) whiteSpace
          \<longleftrightarrow> (\<exists>a \<in> set whiteSpace. a = canonicalize c)"
    unfolding list_ex_iff using canonicalize_whiteSpace by auto
  also have "\<dots> \<longleftrightarrow> c \<in> set whiteSpace"
    using whiteSpace_canonicalize by auto
  finally show ?thesis by simp
qed


section \<open>The matcher finds what the pattern denotes\<close>

lemma lang_Star_unfold:
  "lang (Star a # p) = lang p \<union> {c # w | c w. atomMatches a c \<and> w \<in> lang (Star a # p)}"
proof (intro set_eqI iffI)
  fix x assume "x \<in> lang (Star a # p)"
  then obtain cs w where x: "x = cs @ w" "list_all (atomMatches a) cs" "w \<in> lang p"
    by auto
  show "x \<in> lang p \<union> {c # w | c w. atomMatches a c \<and> w \<in> lang (Star a # p)}"
  proof (cases cs)
    case Nil
    with x show ?thesis by simp
  next
    case (Cons c cs')
    with x have "atomMatches a c" "cs' @ w \<in> lang (Star a # p)" by auto
    with x Cons show ?thesis by simp
  qed
next
  fix x assume "x \<in> lang p \<union> {c # w | c w. atomMatches a c \<and> w \<in> lang (Star a # p)}"
  then consider "x \<in> lang p"
    | c w where "x = c # w" "atomMatches a c" "w \<in> lang (Star a # p)"
    by auto
  then show "x \<in> lang (Star a # p)"
  proof cases
    case 1
    then have "x = [] @ x \<and> list_all (atomMatches a) [] \<and> x \<in> lang p" by simp
    then show ?thesis unfolding lang.simps by blast
  next
    case 2
    then obtain cs w' where "w = cs @ w'" "list_all (atomMatches a) cs" "w' \<in> lang p"
      by auto
    with 2 have "x = (c # cs) @ w' \<and> list_all (atomMatches a) (c # cs) \<and> w' \<in> lang p"
      by simp
    then show ?thesis unfolding lang.simps by blast
  qed
qed

lemma lang_Plus_unfold:
  "lang (Plus a # p) = {c # w | c w. atomMatches a c \<and> w \<in> lang (Star a # p)}"
  by auto

lemma matchHere_sound: "matchHere p s = Some m \<Longrightarrow> m \<in> lang p \<and> prefix m s"
proof (induction p s arbitrary: m rule: matchHere.induct)
  case (1 s)
  then show ?case by simp
next
  case (2 a p)
  then show ?case by simp
next
  case (3 a p c s)
  then show ?case by (auto split: if_splits)
next
  case (4 a p)
  then show ?case by auto
next
  case (5 a p c s)
  then show ?case by (auto split: if_splits option.splits)
next
  case (6 a p)
  then show ?case by simp
next
  case (7 a p c s)
  from 7 obtain m' where m': "atomMatches a c" "matchHere (Star a # p) s = Some m'" "m = c # m'"
    by (auto split: if_splits)
  with 7 have "m' \<in> lang (Star a # p)" "prefix m' s" by blast+
  with m' show ?case by (simp add: lang_Plus_unfold del: lang.simps)
next
  case (8 a p)
  then have "m \<in> lang p" "prefix m []" by auto
  then show ?case by (subst lang_Star_unfold) simp
next
  case (9 a p c s)
  show ?case
  proof (cases "atomMatches a c")
    case False
    with 9 have "m \<in> lang p" "prefix m (c # s)" by auto
    then show ?thesis by (subst lang_Star_unfold) simp
  next
    case True
    show ?thesis
    proof (cases "matchHere (Star a # p) s")
      case None
      with 9 True have "m \<in> lang p" "prefix m (c # s)" by auto
      then show ?thesis by (subst lang_Star_unfold) simp
    next
      case (Some m')
      with 9 True have "m = c # m'" "m' \<in> lang (Star a # p)" "prefix m' s" by auto
      with True show ?thesis by (subst lang_Star_unfold) simp
    qed
  qed
qed


lemma matchHere_complete: "w \<in> lang p \<Longrightarrow> prefix w s \<Longrightarrow> matchHere p s \<noteq> None"
proof (induction p s arbitrary: w rule: matchHere.induct)
  case (1 s)
  then show ?case by simp
next
  case (2 a p)
  then show ?case by auto
next
  case (3 a p c s)
  then show ?case by auto
next
  case (4 a p)
  then show ?case by auto
next
  case (5 a p c s)
  from "5.prems"(1) consider "w \<in> lang p"
    | d w' where "w = d # w'" "atomMatches a d" "w' \<in> lang p"
    by auto
  then show ?case
  proof cases
    case 1
    show ?thesis
    proof (cases "atomMatches a c \<and> matchHere p s \<noteq> None")
      case True
      then show ?thesis by auto
    next
      case False
      with "5.IH"(2,3) 1 "5.prems"(2) have "matchHere p (c # s) \<noteq> None" by blast
      with False show ?thesis by (auto split: option.splits)
    qed
  next
    case 2
    with "5.prems"(2) have "d = c" "prefix w' s" by auto
    with 2 "5.IH"(1) have "matchHere p s \<noteq> None" by blast
    with 2 \<open>d = c\<close> show ?thesis by auto
  qed
next
  case (6 a p)
  then show ?case by auto
next
  case (7 a p c s)
  from "7.prems" obtain w' where w': "w = c # w'" "atomMatches a c" "w' \<in> lang (Star a # p)"
    "prefix w' s"
    by (auto simp: lang_Plus_unfold simp del: lang.simps)
  with "7.IH" have "matchHere (Star a # p) s \<noteq> None" by blast
  with w' show ?case by auto
next
  case (8 a p)
  from "8.prems" have "w = []" by simp
  with "8.prems" have "w \<in> lang p" by (subst (asm) lang_Star_unfold) simp
  with "8.IH" "8.prems" show ?case by auto
next
  case (9 a p c s)
  from "9.prems"(1) consider "w \<in> lang p"
    | d w' where "w = d # w'" "atomMatches a d" "w' \<in> lang (Star a # p)"
    by (subst (asm) lang_Star_unfold) blast
  then show ?case
  proof cases
    case 1
    show ?thesis
    proof (cases "atomMatches a c \<and> matchHere (Star a # p) s \<noteq> None")
      case True
      then show ?thesis by auto
    next
      case False
      with "9.IH"(2,3) 1 "9.prems"(2) have "matchHere p (c # s) \<noteq> None" by blast
      with False show ?thesis by (auto split: option.splits)
    qed
  next
    case 2
    with "9.prems"(2) have "d = c" "prefix w' s" by auto
    with 2 "9.IH"(1) have "matchHere (Star a # p) s \<noteq> None" by blast
    with 2 \<open>d = c\<close> show ?thesis by auto
  qed
qed

lemma str_match_None: "str_match s re = None \<longleftrightarrow> (\<forall>w \<in> lang re. \<not> sublist w s)"
proof (induction s)
  case Nil
  show ?case
  proof
    assume "str_match [] re = None"
    then show "\<forall>w \<in> lang re. \<not> sublist w []"
      using matchHere_complete [of _ re "[]"] by auto
  next
    assume "\<forall>w \<in> lang re. \<not> sublist w []"
    then show "str_match [] re = None"
      using matchHere_sound [of re "[]"] by (cases "matchHere re []") auto
  qed
next
  case (Cons c s)
  show ?case
  proof
    assume a: "str_match (c # s) re = None"
    then have "matchHere re (c # s) = None" "str_match s re = None"
      by (auto split: option.splits)
    with Cons show "\<forall>w \<in> lang re. \<not> sublist w (c # s)"
      using matchHere_complete [of _ re "c # s"] by (auto simp: sublist_Cons_right)
  next
    assume a: "\<forall>w \<in> lang re. \<not> sublist w (c # s)"
    then have "\<forall>w \<in> lang re. \<not> sublist w s" by (auto simp: sublist_Cons_right)
    with Cons have "str_match s re = None" by simp
    moreover have "matchHere re (c # s) = None"
    proof (cases "matchHere re (c # s)")
      case (Some m)
      then have "m \<in> lang re" "prefix m (c # s)" using matchHere_sound by blast+
      with a show ?thesis by (auto simp: sublist_Cons_right)
    qed simp
    ultimately show "str_match (c # s) re = None" by simp
  qed
qed

lemma str_match_Some:
  "str_match s re = Some m \<Longrightarrow>
     \<exists>pre post. s = pre @ m @ post \<and> matchHere re (m @ post) = Some m
       \<and> (\<forall>k < length pre. matchHere re (drop k s) = None)"
proof (induction s)
  case Nil
  then have "prefix m []" using matchHere_sound by fastforce
  with Nil show ?case by auto
next
  case (Cons c s)
  show ?case
  proof (cases "matchHere re (c # s)")
    case (Some m')
    with Cons.prems have m: "m' = m" by simp
    with Some have "prefix m (c # s)" using matchHere_sound by blast
    then obtain post where "c # s = m @ post" by (auto simp: prefix_def)
    with Some m have "c # s = [] @ m @ post \<and> matchHere re (m @ post) = Some m
       \<and> (\<forall>k < length ([]::string). matchHere re (drop k (c # s)) = None)" by simp
    then show ?thesis by blast
  next
    case None
    with Cons.prems have "str_match s re = Some m" by simp
    with Cons.IH obtain pre post where pp: "s = pre @ m @ post"
      "matchHere re (m @ post) = Some m" "\<forall>k < length pre. matchHere re (drop k s) = None"
      by blast
    have "\<forall>k < length (c # pre). matchHere re (drop k (c # s)) = None"
    proof (intro allI impI)
      fix k assume "k < length (c # pre)"
      then show "matchHere re (drop k (c # s)) = None"
        using None pp(3) by (cases k) auto
    qed
    with pp have "c # s = (c # pre) @ m @ post \<and> matchHere re (m @ post) = Some m
       \<and> (\<forall>k < length (c # pre). matchHere re (drop k (c # s)) = None)" by simp
    then show ?thesis by blast
  qed
qed


lemma eq_ci_append: "eq_ci u a \<Longrightarrow> eq_ci v b \<Longrightarrow> eq_ci (u @ v) (a @ b)"
  by (simp add: eq_ci_def)

lemma eq_ci_appendD:
  assumes "eq_ci u (a @ b)"
  shows "eq_ci (take (length a) u) a" and "eq_ci (drop (length a) u) b"
proof -
  from assms have m: "map canonicalize u = map canonicalize a @ map canonicalize b"
    by (simp add: eq_ci_def)
  have "take (length a) (map canonicalize u) = map canonicalize a"
    by (simp add: m)
  then show "eq_ci (take (length a) u) a" by (simp add: eq_ci_def take_map)
  have "drop (length a) (map canonicalize u) = map canonicalize b"
    by (simp add: m)
  then show "eq_ci (drop (length a) u) b" by (simp add: eq_ci_def drop_map)
qed

lemma in_lang_lits:
  "w \<in> lang (lits s @ q) \<longleftrightarrow> (\<exists>u v. w = u @ v \<and> eq_ci u s \<and> v \<in> lang q)"
proof (induction s arbitrary: w)
  case Nil
  show ?case by (simp add: lits_def eq_ci_def)
next
  case (Cons c s)
  have "w \<in> lang (lits (c # s) @ q) \<longleftrightarrow>
        (\<exists>d w'. w = d # w' \<and> canonicalize d = canonicalize c \<and> w' \<in> lang (lits s @ q))"
    by (simp add: lits_def)
  also have "\<dots> \<longleftrightarrow> (\<exists>d u v. w = d # u @ v \<and> canonicalize d = canonicalize c
                        \<and> eq_ci u s \<and> v \<in> lang q)"
    by (simp add: Cons.IH) blast
  also have "\<dots> \<longleftrightarrow> (\<exists>u v. w = u @ v \<and> eq_ci u (c # s) \<and> v \<in> lang q)"
  proof
    assume "\<exists>d u v. w = d # u @ v \<and> canonicalize d = canonicalize c \<and> eq_ci u s \<and> v \<in> lang q"
    then obtain d u v where "w = (d # u) @ v" "eq_ci (d # u) (c # s)" "v \<in> lang q"
      by (auto simp: eq_ci_def)
    then show "\<exists>u v. w = u @ v \<and> eq_ci u (c # s) \<and> v \<in> lang q" by blast
  next
    assume "\<exists>u v. w = u @ v \<and> eq_ci u (c # s) \<and> v \<in> lang q"
    then obtain u v where uv: "w = u @ v" "eq_ci u (c # s)" "v \<in> lang q" by blast
    then obtain d u' where "u = d # u'" "canonicalize d = canonicalize c" "eq_ci u' s"
      by (auto simp: eq_ci_def map_eq_Cons_conv)
    with uv show "\<exists>d u v. w = d # u @ v \<and> canonicalize d = canonicalize c
                    \<and> eq_ci u s \<and> v \<in> lang q"
      by auto
  qed
  finally show ?case .
qed

lemma notSpace_all: "list_all (atomMatches NotSpace) cs \<longleftrightarrow> list_all (\<lambda>c. c \<notin> set whiteSpace) cs"
  by (induction cs) (simp_all add: notSpace_iff del: atomMatches.simps)

lemma in_lang_Opt:
  "w \<in> lang (Opt a # q) \<longleftrightarrow> w \<in> lang q \<or> (\<exists>c v. w = c # v \<and> atomMatches a c \<and> v \<in> lang q)"
  by auto

lemma in_lang_Plus_NotSpace:
  "w \<in> lang (Plus NotSpace # q) \<longleftrightarrow>
     (\<exists>before v. w = before @ v \<and> before \<noteq> [] \<and> list_all (\<lambda>c. c \<notin> set whiteSpace) before
        \<and> v \<in> lang q)"
proof
  assume "w \<in> lang (Plus NotSpace # q)"
  then obtain c cs v where "w = (c # cs) @ v" "atomMatches NotSpace c"
    "list_all (atomMatches NotSpace) cs" "v \<in> lang q"
    by (auto simp del: atomMatches.simps)
  then have "w = (c # cs) @ v \<and> c # cs \<noteq> [] \<and> list_all (\<lambda>c. c \<notin> set whiteSpace) (c # cs)
     \<and> v \<in> lang q"
    by (simp add: notSpace_all notSpace_iff del: atomMatches.simps)
  then show "\<exists>before v. w = before @ v \<and> before \<noteq> []
     \<and> list_all (\<lambda>c. c \<notin> set whiteSpace) before \<and> v \<in> lang q"
    by blast
next
  assume "\<exists>before v. w = before @ v \<and> before \<noteq> []
     \<and> list_all (\<lambda>c. c \<notin> set whiteSpace) before \<and> v \<in> lang q"
  then obtain before v where b: "w = before @ v" "before \<noteq> []"
     "list_all (\<lambda>c. c \<notin> set whiteSpace) before" "v \<in> lang q"
    by blast
  then obtain c cs where "before = c # cs" by (cases before) auto
  with b have "w = c # cs @ v \<and> atomMatches NotSpace c \<and> list_all (atomMatches NotSpace) cs
     \<and> v \<in> lang q"
    by (simp add: notSpace_all notSpace_iff del: atomMatches.simps)
  then show "w \<in> lang (Plus NotSpace # q)"
    unfolding lang.simps by blast
qed

lemma in_lang_Star_NotSpace:
  "w \<in> lang [Star NotSpace] \<longleftrightarrow> list_all (\<lambda>c. c \<notin> set whiteSpace) w"
  by (simp add: notSpace_all del: atomMatches.simps)

lemma eq_ci_split:
  "eq_ci u (a @ b) \<longleftrightarrow> (\<exists>x y. u = x @ y \<and> eq_ci x a \<and> eq_ci y b)"
proof
  assume "eq_ci u (a @ b)"
  from eq_ci_appendD [OF this]
  have "u = take (length a) u @ drop (length a) u \<and> eq_ci (take (length a) u) a
          \<and> eq_ci (drop (length a) u) b"
    by simp
  then show "\<exists>x y. u = x @ y \<and> eq_ci x a \<and> eq_ci y b" by blast
next
  assume "\<exists>x y. u = x @ y \<and> eq_ci x a \<and> eq_ci y b"
  then show "eq_ci u (a @ b)" using eq_ci_append by blast
qed

lemma eq_ci_Cons:
  "eq_ci u (c # a) \<longleftrightarrow> (\<exists>d v. u = d # v \<and> atomMatches (Chr c) d \<and> eq_ci v a)"
  unfolding eq_ci_def by (auto simp: map_eq_Cons_conv)

lemma in_lang_scheme:
  "w \<in> lang (lits ''http'' @ Opt (Chr CHR ''s'') # lits ''://'' @ q) \<longleftrightarrow>
     (\<exists>scheme v. w = scheme @ v \<and> (eq_ci scheme ''http://'' \<or> eq_ci scheme ''https://'')
        \<and> v \<in> lang q)"
proof -
  have http: "''http://'' = ''http'' @ ''://''" and https: "''https://'' = ''http'' @ CHR ''s'' # ''://''"
    by simp_all
  show ?thesis
  proof
    assume "w \<in> lang (lits ''http'' @ Opt (Chr CHR ''s'') # lits ''://'' @ q)"
    then obtain u1 v1 where 1: "w = u1 @ v1" "eq_ci u1 ''http''"
      "v1 \<in> lang (Opt (Chr CHR ''s'') # lits ''://'' @ q)"
      by (subst (asm) in_lang_lits) blast
    from 1(3) consider "v1 \<in> lang (lits ''://'' @ q)"
      | c v where "v1 = c # v" "atomMatches (Chr CHR ''s'') c" "v \<in> lang (lits ''://'' @ q)"
      by (subst (asm) in_lang_Opt) blast
    then show "\<exists>scheme v. w = scheme @ v
        \<and> (eq_ci scheme ''http://'' \<or> eq_ci scheme ''https://'') \<and> v \<in> lang q"
    proof cases
      case 1
      then obtain u2 v2 where 2: "v1 = u2 @ v2" "eq_ci u2 ''://''" "v2 \<in> lang q"
        by (subst (asm) in_lang_lits) blast
      with \<open>eq_ci u1 ''http''\<close> have "eq_ci (u1 @ u2) ''http://''"
        unfolding http eq_ci_split by blast
      moreover have "w = (u1 @ u2) @ v2" using \<open>w = u1 @ v1\<close> 2 by simp
      ultimately show ?thesis using 2(3) by blast
    next
      case 2
      then obtain u2 v2 where 3: "v = u2 @ v2" "eq_ci u2 ''://''" "v2 \<in> lang q"
        by (subst (asm) in_lang_lits) blast
      with 2 have "eq_ci (c # u2) (CHR ''s'' # ''://'')"
        unfolding eq_ci_Cons by blast
      with \<open>eq_ci u1 ''http''\<close> have "eq_ci (u1 @ c # u2) ''https://''"
        unfolding https eq_ci_split by blast
      moreover have "w = (u1 @ c # u2) @ v2" using \<open>w = u1 @ v1\<close> 2 3 by simp
      ultimately show ?thesis using 3(3) by blast
    qed
  next
    assume "\<exists>scheme v. w = scheme @ v
        \<and> (eq_ci scheme ''http://'' \<or> eq_ci scheme ''https://'') \<and> v \<in> lang q"
    then obtain scheme v where s: "w = scheme @ v"
      "eq_ci scheme ''http://'' \<or> eq_ci scheme ''https://''" "v \<in> lang q"
      by blast
    from s(2) obtain x t where xt: "scheme = x @ t" "eq_ci x ''http''"
      "t @ v \<in> lang (Opt (Chr CHR ''s'') # lits ''://'' @ q)"
    proof
      assume "eq_ci scheme ''http://''"
      then obtain x y where xy: "scheme = x @ y" "eq_ci x ''http''" "eq_ci y ''://''"
        unfolding http eq_ci_split by blast
      with s(3) have "y @ v \<in> lang (lits ''://'' @ q)"
        by (subst in_lang_lits) blast
      then have "y @ v \<in> lang (Opt (Chr CHR ''s'') # lits ''://'' @ q)"
        by (subst in_lang_Opt) blast
      with xy that show ?thesis by blast
    next
      assume "eq_ci scheme ''https://''"
      then obtain x y where xy: "scheme = x @ y" "eq_ci x ''http''"
        "eq_ci y (CHR ''s'' # ''://'')"
        unfolding https eq_ci_split by blast
      from xy(3) obtain d y' where d: "y = d # y'" "atomMatches (Chr CHR ''s'') d"
        "eq_ci y' ''://''"
        unfolding eq_ci_Cons by blast
      with s(3) have "y' @ v \<in> lang (lits ''://'' @ q)"
        by (subst in_lang_lits) blast
      with d have "y @ v \<in> lang (Opt (Chr CHR ''s'') # lits ''://'' @ q)"
        by (subst in_lang_Opt) simp
      with xy that show ?thesis by blast
    qed
    then have "x @ t @ v \<in> lang (lits ''http'' @ Opt (Chr CHR ''s'') # lits ''://'' @ q)"
      by (subst in_lang_lits) blast
    with xt s(1) show "w \<in> lang (lits ''http'' @ Opt (Chr CHR ''s'') # lits ''://'' @ q)"
      by simp
  qed
qed

lemma lang_unsubscribeRegex: "w \<in> lang unsubscribeRegex \<longleftrightarrow> unsubscribeUrl w"
proof -
  have "w \<in> lang unsubscribeRegex \<longleftrightarrow>
        (\<exists>scheme v. w = scheme @ v \<and> (eq_ci scheme ''http://'' \<or> eq_ci scheme ''https://'')
           \<and> v \<in> lang (Plus NotSpace # lits ''unsubscribe'' @ [Star NotSpace]))"
    unfolding unsubscribeRegex_def using in_lang_scheme by simp
  also have "\<dots> \<longleftrightarrow>
        (\<exists>scheme before v'. w = scheme @ before @ v'
           \<and> (eq_ci scheme ''http://'' \<or> eq_ci scheme ''https://'')
           \<and> before \<noteq> [] \<and> list_all (\<lambda>c. c \<notin> set whiteSpace) before
           \<and> v' \<in> lang (lits ''unsubscribe'' @ [Star NotSpace]))"
    unfolding in_lang_Plus_NotSpace by blast
  also have "\<dots> \<longleftrightarrow>
        (\<exists>scheme before word after. w = scheme @ before @ word @ after
           \<and> (eq_ci scheme ''http://'' \<or> eq_ci scheme ''https://'')
           \<and> before \<noteq> [] \<and> list_all (\<lambda>c. c \<notin> set whiteSpace) before
           \<and> eq_ci word ''unsubscribe'' \<and> list_all (\<lambda>c. c \<notin> set whiteSpace) after)"
    unfolding in_lang_lits in_lang_Star_NotSpace by blast
  also have "\<dots> \<longleftrightarrow> unsubscribeUrl w"
    unfolding unsubscribeUrl_def list_all_append by blast
  finally show ?thesis .
qed

section \<open>Letter case\<close>

lemma map_eq_appendD:
  "map f s = u @ v \<Longrightarrow> \<exists>x y. s = x @ y \<and> map f x = u \<and> map f y = v"
  using map_eq_append_conv [of f s u v] by blast

lemma sublist_map_iff: "sublist k (map f s) \<longleftrightarrow> (\<exists>t. sublist t s \<and> map f t = k)"
proof
  assume "sublist k (map f s)"
  then obtain ps ss where "map f s = ps @ k @ ss" unfolding sublist_def by blast
  then obtain us vs where 1: "s = us @ vs" "map f vs = k @ ss"
    using map_eq_appendD by blast
  from 1(2) obtain t ws where 2: "vs = t @ ws" "map f t = k"
    using map_eq_appendD by blast
  from 1(1) 2(1) have "sublist t s" unfolding sublist_def by blast
  with 2(2) show "\<exists>t. sublist t s \<and> map f t = k" by blast
next
  assume "\<exists>t. sublist t s \<and> map f t = k"
  then obtain t ps ss where "s = ps @ t @ ss" "map f t = k" unfolding sublist_def by blast
  then have "map f s = map f ps @ k @ map f ss" by simp
  then show "sublist k (map f s)" unfolding sublist_def by blast
qed

lemma str_includes_toLowerCase: "str_includes (toLowerCase s) k \<longleftrightarrow> occurs_ci k s"
  unfolding str_includes_def occurs_ci_def toLowerCase_def by (rule sublist_map_iff)

lemma eq_ci_toLowerCase: "eq_ci (toLowerCase u) v \<longleftrightarrow> eq_ci u v"
  by (simp add: eq_ci_def toLowerCase_def canonicalize_toLowerCase_unit comp_def)

lemma notSpace_toLowerCase:
  "list_all (\<lambda>c. c \<notin> set whiteSpace) (toLowerCase u) \<longleftrightarrow> list_all (\<lambda>c. c \<notin> set whiteSpace) u"
  by (induction u) (simp_all add: toLowerCase_def whiteSpace_toLowerCase_unit)

lemma toLowerCase_append: "toLowerCase (u @ v) = toLowerCase u @ toLowerCase v"
  by (simp add: toLowerCase_def)

lemma toLowerCase_appendD:
  "toLowerCase w = u @ v \<Longrightarrow> \<exists>x y. w = x @ y \<and> toLowerCase x = u \<and> toLowerCase y = v"
  unfolding toLowerCase_def by (rule map_eq_appendD)

lemma unsubscribeUrl_toLowerCase: "unsubscribeUrl (toLowerCase w) \<longleftrightarrow> unsubscribeUrl w"
proof
  assume "unsubscribeUrl (toLowerCase w)"
  then obtain scheme before word after where u: "toLowerCase w = scheme @ before @ word @ after"
    "eq_ci scheme ''http://'' \<or> eq_ci scheme ''https://''" "before \<noteq> []"
    "list_all (\<lambda>c. c \<notin> set whiteSpace) (before @ after)" "eq_ci word ''unsubscribe''"
    unfolding unsubscribeUrl_def by blast
  from u(1) obtain s' r1 where 1: "w = s' @ r1" "toLowerCase s' = scheme"
    "toLowerCase r1 = before @ word @ after"
    using toLowerCase_appendD by blast
  from 1(3) obtain b' r2 where 2: "r1 = b' @ r2" "toLowerCase b' = before"
    "toLowerCase r2 = word @ after"
    using toLowerCase_appendD by blast
  from 2(3) obtain w' a' where 3: "r2 = w' @ a'" "toLowerCase w' = word" "toLowerCase a' = after"
    using toLowerCase_appendD by blast
  have "w = s' @ b' @ w' @ a'" using 1 2 3 by simp
  moreover have "eq_ci s' ''http://'' \<or> eq_ci s' ''https://''"
    using u(2) 1(2) eq_ci_toLowerCase by blast
  moreover have "b' \<noteq> []" using u(3) 2(2) by (auto simp: toLowerCase_def)
  moreover have "list_all (\<lambda>c. c \<notin> set whiteSpace) (b' @ a')"
    using u(4) 2(2) 3(3) notSpace_toLowerCase [of "b' @ a'"] by (simp add: toLowerCase_append)
  moreover have "eq_ci w' ''unsubscribe''" using u(5) 3(2) eq_ci_toLowerCase by blast
  ultimately show "unsubscribeUrl w" unfolding unsubscribeUrl_def by blast
next
  assume "unsubscribeUrl w"
  then obtain scheme before word after where u: "w = scheme @ before @ word @ after"
    "eq_ci scheme ''http://'' \<or> eq_ci scheme ''https://''" "before \<noteq> []"
    "list_all (\<lambda>c. c \<notin> set whiteSpace) (before @ after)" "eq_ci word ''unsubscribe''"
    unfolding unsubscribeUrl_def by blast
  have "toLowerCase w = toLowerCase scheme @ toLowerCase before @ toLowerCase word @ toLowerCase after"
    using u(1) by (simp add: toLowerCase_append)
  moreover have "eq_ci (toLowerCase scheme) ''http://'' \<or> eq_ci (toLowerCase scheme) ''https://''"
    using u(2) by (simp add: eq_ci_toLowerCase)
  moreover have "toLowerCase before \<noteq> []" using u(3) by (simp add: toLowerCase_def)
  moreover have "list_all (\<lambda>c. c \<notin> set whiteSpace) (toLowerCase before @ toLowerCase after)"
    using u(4) notSpace_toLowerCase [of "before @ after"] by (simp add: toLowerCase_append)
  moreover have "eq_ci (toLowerCase word) ''unsubscribe''" using u(5) by (simp add: eq_ci_toLowerCase)
  ultimately show "unsubscribeUrl (toLowerCase w)" unfolding unsubscribeUrl_def by blast
qed

lemma containsUnsubscribeUrl_toLowerCase:
  "containsUnsubscribeUrl (toLowerCase s) \<longleftrightarrow> containsUnsubscribeUrl s"
proof
  assume "containsUnsubscribeUrl (toLowerCase s)"
  then obtain w where w: "unsubscribeUrl w" "sublist w (toLowerCase s)"
    unfolding containsUnsubscribeUrl_def by blast
  from w(2) obtain t where "sublist t s" "toLowerCase t = w"
    using sublist_map_iff [of w toLowerCase_unit s] unfolding toLowerCase_def by blast
  with w(1) show "containsUnsubscribeUrl s"
    unfolding containsUnsubscribeUrl_def using unsubscribeUrl_toLowerCase by blast
next
  assume "containsUnsubscribeUrl s"
  then obtain w where w: "unsubscribeUrl w" "sublist w s"
    unfolding containsUnsubscribeUrl_def by blast
  then have "sublist (toLowerCase w) (toLowerCase s)"
    using sublist_map_iff [of "toLowerCase w" toLowerCase_unit s] unfolding toLowerCase_def by blast
  with w(1) show "containsUnsubscribeUrl (toLowerCase s)"
    unfolding containsUnsubscribeUrl_def using unsubscribeUrl_toLowerCase by blast
qed

lemma unsubscribeUrl_not_Nil: "unsubscribeUrl w \<Longrightarrow> w \<noteq> []"
  unfolding unsubscribeUrl_def by auto

lemma str_match_unsubscribe_None:
  "str_match s unsubscribeRegex = None \<longleftrightarrow> \<not> containsUnsubscribeUrl s"
  unfolding str_match_None containsUnsubscribeUrl_def using lang_unsubscribeRegex by blast

lemma str_match_unsubscribe_Some:
  assumes "str_match s unsubscribeRegex = Some m"
  shows "unsubscribeUrl m" and "sublist m s"
proof -
  from str_match_Some [OF assms] obtain pre post where
    "s = pre @ m @ post" "matchHere unsubscribeRegex (m @ post) = Some m"
    by blast
  then show "sublist m s" "unsubscribeUrl m"
    using matchHere_sound lang_unsubscribeRegex by (auto simp: sublist_def)
qed

section \<open>Scores and result fields\<close>

lemma countKeywords_eq:
  "countKeywords table subject body score =
     score + length (filter (\<lambda>k. str_includes subject k \<or> str_includes body k) table)"
  by (induction table arbitrary: score) simp_all

lemma foundLink_eq:
  "foundLink e = str_match (toLowerCase (email_body e)) unsubscribeRegex"
  by (simp add: foundLink_def scores_def Let_def split: option.splits)

lemma foundLink_None_iff: "foundLink e = None \<longleftrightarrow> \<not> containsUnsubscribeUrl (email_body e)"
  unfolding foundLink_eq str_match_unsubscribe_None containsUnsubscribeUrl_toLowerCase ..

lemma truthy_foundLink: "truthy (foundLink e) \<longleftrightarrow> foundLink e \<noteq> None"
proof (cases "foundLink e")
  case None
  then show ?thesis by simp
next
  case (Some m)
  then have "unsubscribeUrl m"
    unfolding foundLink_eq by (rule str_match_unsubscribe_Some)
  then have "m \<noteq> []" by (rule unsubscribeUrl_not_Nil)
  with Some show ?thesis by simp
qed

lemma scores_eq: "scores e = (marketingScore e, importantScore e, foundLink e)"
  by (simp add: marketingScore_def importantScore_def foundLink_def)

lemma marketingScore_eq:
  "marketingScore e =
     length (filter (\<lambda>k. occurs_ci k (email_subject e) \<or> occurs_ci k (email_body e))
               marketingKeywords)
     + (if str_includes (toLowerCase (email_from e)) ''noreply''
           \<or> str_includes (toLowerCase (email_from e)) ''no-reply''
           \<or> str_includes (toLowerCase (email_from e)) ''marketing'' then 2 else 0)
     + (if foundLink e \<noteq> None then 3 else 0)"
proof -
  have "marketingScore e =
     countKeywords marketingKeywords (toLowerCase (email_subject e)) (toLowerCase (email_body e)) 0
     + (if str_includes (toLowerCase (email_from e)) ''noreply''
           \<or> str_includes (toLowerCase (email_from e)) ''no-reply''
           \<or> str_includes (toLowerCase (email_from e)) ''marketing'' then 2 else 0)
     + (if truthy (foundLink e) then 3 else 0)"
    unfolding foundLink_eq
    by (simp add: marketingScore_def scores_def Let_def split: option.splits)
  then show ?thesis
    by (simp only: countKeywords_eq str_includes_toLowerCase truthy_foundLink add_0)
qed

lemma importantScore_eq:
  "importantScore e =
     length (filter (\<lambda>k. occurs_ci k (email_subject e) \<or> occurs_ci k (email_body e))
               importantKeywords)
     + (if str_includes (toLowerCase (email_from e)) ''admin''
           \<or> str_includes (toLowerCase (email_from e)) ''support''
           \<or> str_includes (toLowerCase (email_from e)) ''billing'' then 2 else 0)"
proof -
  have "importantScore e =
     countKeywords importantKeywords (toLowerCase (email_subject e)) (toLowerCase (email_body e)) 0
     + (if str_includes (toLowerCase (email_from e)) ''admin''
           \<or> str_includes (toLowerCase (email_from e)) ''support''
           \<or> str_includes (toLowerCase (email_from e)) ''billing'' then 2 else 0)"
    by (simp add: importantScore_def scores_def Let_def)
  then show ?thesis
    by (simp only: countKeywords_eq str_includes_toLowerCase add_0)
qed

lemma classification_classifyEmail:
  "classification (classifyEmail e) =
     (if importantScore e < marketingScore e then Marketing else Important)"
  by (simp add: classifyEmail_def scores_eq Let_def)

lemma unsubscribeLink_classifyEmail: "unsubscribeLink (classifyEmail e) = foundLink e"
  by (simp add: classifyEmail_def scores_eq Let_def)

lemma action_classifyEmail:
  "action (classifyEmail e) =
     (if importantScore e < marketingScore e
      then (if foundLink e \<noteq> None then ''Unsubscribe available'' else ''Mark as spam or delete'')
      else ''Keep and respond professionally if needed'')"
  by (simp add: classifyEmail_def scores_eq truthy_foundLink Let_def)

lemma reason_classifyEmail:
  "reason (classifyEmail e) =
     (if importantScore e < marketingScore e
      then ''Marketing email detected (score: '' @ show_nat (marketingScore e)
             @ ''). Contains promotional content.''
      else ''Important email detected (score: '' @ show_nat (importantScore e)
             @ ''). Requires attention.'')"
  by (simp add: classifyEmail_def scores_eq Let_def)

lemma copied_classifyEmail:
  "result_id (classifyEmail e) = email_id e"
  "result_from (classifyEmail e) = email_from e"
  "result_subject (classifyEmail e) = email_subject e"
  "result_date (classifyEmail e) = email_date e"
  by (simp_all add: classifyEmail_def scores_eq Let_def)

lemma scores_cong:
  assumes "email_from a = email_from b" "email_subject a = email_subject b"
    "email_body a = email_body b"
  shows "scores a = scores b"
  unfolding scores_def using assms by simp

text \<open>
  What the search returns is the lower-case form of a part of the body that follows
  the grammar of a link.
\<close>

lemma foundLink_lowercased:
  assumes "foundLink e = Some m"
  shows "\<exists>t. sublist t (email_body e) \<and> unsubscribeUrl t \<and> m = toLowerCase t"
proof -
  from assms have m: "str_match (toLowerCase (email_body e)) unsubscribeRegex = Some m"
    by (simp add: foundLink_eq)
  from str_match_unsubscribe_Some [OF m]
  have "unsubscribeUrl m" "sublist m (toLowerCase (email_body e))" by blast+
  then obtain t where "sublist t (email_body e)" "toLowerCase t = m"
    using sublist_map_iff [of m toLowerCase_unit "email_body e"] unfolding toLowerCase_def by blast
  with \<open>unsubscribeUrl m\<close> show ?thesis using unsubscribeUrl_toLowerCase by blast
qed

lemma keyword_tables_lower_case:
  "list_all (\<lambda>k. toLowerCase k = k) (marketingKeywords @ importantKeywords)"
  by code_simp

lemma keyword_tables_distinct: "distinct marketingKeywords \<and> distinct importantKeywords"
  by code_simp

section \<open>The batch\<close>

lemma length_demoLoop:
  "length (demoLoop toISO now count i emails) = length emails + nat (count - int i)"
proof (induction toISO now count i emails rule: demoLoop.induct)
  case (1 toISO now count i emails)
  show ?case
  proof (cases "int i < count")
    case True
    with 1 show ?thesis by (subst demoLoop.simps) (simp add: Let_def nat_diff_distrib')
  next
    case False
    then show ?thesis by (subst demoLoop.simps) simp
  qed
qed

lemma length_generateDemoEmails: "length (generateDemoEmails toISO now count) = nat count"
  by (simp add: generateDemoEmails_def length_demoLoop)

lemma batchSize_le: "batchSize config \<le> 100"
  by (simp add: batchSize_def)

lemma truthy_unsubscribeLink:
  "truthy (unsubscribeLink (classifyEmail e)) \<longleftrightarrow> unsubscribeLink (classifyEmail e) \<noteq> None"
  by (simp only: unsubscribeLink_classifyEmail truthy_foundLink)

lemma fst_classifyBatch:
  "fst (classifyBatch emails autoUnsub) =
     (if autoUnsub
      then map (\<lambda>r. if classification r = Marketing \<and> unsubscribeLink r \<noteq> None
                     then r\<lparr> action := ''Successfully unsubscribed'' \<rparr> else r)
             (map classifyEmail emails)
      else map classifyEmail emails)"
  by (simp add: classifyBatch_def Let_def truthy_unsubscribeLink)

lemma snd_classifyBatch:
  "snd (classifyBatch emails autoUnsub) =
     \<lparr> stats_total = length emails,
       stats_marketing =
         length (filter (\<lambda>r. classification r = Marketing) (map classifyEmail emails)),
       stats_important =
         length (filter (\<lambda>r. classification r = Important) (map classifyEmail emails)),
       stats_unsubscribed =
         (if autoUnsub
          then length (filter (\<lambda>r. classification r = Marketing \<and> unsubscribeLink r \<noteq> None)
                         (map classifyEmail emails))
          else 0) \<rparr>"
proof -
  have "filter (\<lambda>r. classification r = Marketing \<and> truthy (unsubscribeLink r))
          (map classifyEmail emails)
      = filter (\<lambda>r. classification r = Marketing \<and> unsubscribeLink r \<noteq> None)
          (map classifyEmail emails)"
  proof (rule filter_cong)
    fix r assume "r \<in> set (map classifyEmail emails)"
    then obtain e where "r = classifyEmail e" by auto
    then show "(classification r = Marketing \<and> truthy (unsubscribeLink r))
             = (classification r = Marketing \<and> unsubscribeLink r \<noteq> None)"
      by (simp only: truthy_unsubscribeLink)
  qed simp
  then show ?thesis by (simp add: classifyBatch_def Let_def)
qed

lemma count_two_labels:
  "length (filter (\<lambda>r. classification r = Marketing) rs)
     + length (filter (\<lambda>r. classification r = Important) rs) = length rs"
proof (induction rs)
  case Nil
  show ?case by simp
next
  case (Cons r rs)
  then show ?case by (cases "classification r") simp_all
qed

lemma count_conj_le: "length (filter (\<lambda>r. P r \<and> Q r) rs) \<le> length (filter P rs)"
  by (induction rs) auto

lemma action_never_unsubscribed: "action (classifyEmail e) \<noteq> ''Successfully unsubscribed''"
  by (simp add: action_classifyEmail)

lemma POST_Inr:
  "POST toISO now (Inr config) =
     Analysis
       (fst (classifyBatch (generateDemoEmails toISO now (batchSize config))
               (autoUnsubscribe config)))
       (snd (classifyBatch (generateDemoEmails toISO now (batchSize config))
               (autoUnsubscribe config)))"
  by (simp add: POST_def Let_def split: prod.splits)

lemma length_fst_classifyBatch: "length (fst (classifyBatch emails autoUnsub)) = length emails"
  by (simp add: fst_classifyBatch)


section \<open>The two grammars\<close>

lemma unsubscribeUrl_spec: "unsubscribeUrl w \<Longrightarrow> specUnsubscribeUrl w"
  unfolding unsubscribeUrl_def specUnsubscribeUrl_def by blast

lemma link_found_spec:
  "unsubscribeLink (classifyEmail e) \<noteq> None \<Longrightarrow> containsSpecUnsubscribeUrl (email_body e)"
proof -
  assume "unsubscribeLink (classifyEmail e) \<noteq> None"
  then have "containsUnsubscribeUrl (email_body e)"
    by (simp add: unsubscribeLink_classifyEmail foundLink_None_iff)
  then show ?thesis
    unfolding containsUnsubscribeUrl_def containsSpecUnsubscribeUrl_def
    using unsubscribeUrl_spec by blast
qed

section \<open>Objects and typed records\<close>

lemma asString_Some: "asString v = Some s \<longleftrightarrow> v = Some (JStr s)"
  by (cases "(v)" rule: asString.cases) simp_all

lemma toLowerCase_js_string: "toLowerCase_js (Some (JStr s)) = Inr (toLowerCase s)"
  by (simp add: toLowerCase_js_def)

lemma toLowerCase_js_raises: "asString v = None \<Longrightarrow> toLowerCase_js v = Inl TypeError"
  by (simp add: toLowerCase_js_def)

lemma classifyEmail_js_typed:
  assumes "asEmailData obj = Some e"
  shows "classifyEmail_js obj = Inr (asResultObject (classifyEmail e))"
proof -
  from assms obtain i f s d b where
    fields: "obj_id obj = Some (JStr i)" "obj_from obj = Some (JStr f)"
      "obj_subject obj = Some (JStr s)" "obj_date obj = Some (JStr d)"
      "obj_body obj = Some (JStr b)"
    and e: "e = \<lparr> email_id = i, email_from = f, email_subject = s, email_date = d,
              email_body = b,
              email_headers = (case obj_headers obj of None \<Rightarrow> JNull | Some h \<Rightarrow> h) \<rparr>"
    unfolding asEmailData_def by (auto simp: asString_Some split: option.splits)
  show ?thesis
    unfolding classifyEmail_js_def classifyEmail_def scores_def asResultObject_def
    by (simp add: fields e toLowerCase_js_string Let_def)
qed

text \<open>The call raises exactly when subject, sender or body is no string.\<close>

lemma classifyEmail_js_raises_iff:
  "classifyEmail_js obj = Inl TypeError \<longleftrightarrow>
     asString (obj_subject obj) = None \<or> asString (obj_from obj) = None
     \<or> asString (obj_body obj) = None"
  unfolding classifyEmail_js_def toLowerCase_js_def
  by (simp add: Let_def split: option.splits)

lemma wellFormed_asEmailData: "wellFormed obj \<Longrightarrow> \<exists>e. asEmailData obj = Some e"
  unfolding wellFormed_def asEmailData_def by (auto split: option.splits)

lemma asEmailData_fields:
  assumes "asEmailData obj = Some e"
  shows "obj_id obj = Some (JStr (email_id e))" "obj_from obj = Some (JStr (email_from e))"
    "obj_subject obj = Some (JStr (email_subject e))" "obj_date obj = Some (JStr (email_date e))"
  using assms unfolding asEmailData_def
  by (auto simp: asString_Some split: option.splits)

section \<open>The claims\<close>

text \<open>
  C1. An email is labelled marketing exactly when its marketing score is strictly
  greater than its important score; when the two scores are equal, zero against zero
  included, it is labelled important.
\<close>

theorem classify_decision_rule:
  "(classification (classifyEmail e) = Marketing \<longleftrightarrow> importantScore e < marketingScore e)
   \<and> (marketingScore e = importantScore e \<longrightarrow> classification (classifyEmail e) = Important)"
  by (simp add: classification_classifyEmail)

text \<open>Empty subject and body: zero against zero, labelled important.\<close>

theorem classify_decision_rule_witness:
  "marketingScore emptyEmail = 0 \<and> importantScore emptyEmail = 0
   \<and> classification (classifyEmail emptyEmail) = Important"
proof -
  have s: "marketingScore emptyEmail = 0 \<and> importantScore emptyEmail = 0" by code_simp
  with classify_decision_rule [of emptyEmail] show ?thesis by simp
qed

text \<open>
  C2. The claim reads: the link of the result is the first matching part of the body
  verbatim, capitals kept. The search runs on the body in lower case, so for the body
  \<open>https://Example.com/Unsubscribe?ID=A1\<close> the link returned is
  \<open>https://example.com/unsubscribe?id=a1\<close>, a text that does not occur in the body.
\<close>

theorem link_is_lowercased:
  "unsubscribeLink (classifyEmail mixedCaseEmail) = Some ''https://example.com/unsubscribe?id=a1''
   \<and> email_body mixedCaseEmail = ''https://Example.com/Unsubscribe?ID=A1''
   \<and> \<not> sublist ''https://example.com/unsubscribe?id=a1'' (email_body mixedCaseEmail)"
  by code_simp

text \<open>
  C3. For every batch and either value of the flag, the total of the statistics is
  the number of results, the marketing and important counts add up to the total, every
  result carries one of the two labels, and the unsubscribed count is at most the
  marketing count.
\<close>

theorem stats_invariants:
  "stats_total (snd (classifyBatch emails autoUnsub)) = length (fst (classifyBatch emails autoUnsub))
   \<and> stats_marketing (snd (classifyBatch emails autoUnsub))
       + stats_important (snd (classifyBatch emails autoUnsub))
       = stats_total (snd (classifyBatch emails autoUnsub))
   \<and> stats_unsubscribed (snd (classifyBatch emails autoUnsub))
       \<le> stats_marketing (snd (classifyBatch emails autoUnsub))
   \<and> list_all (\<lambda>r. classification r = Marketing \<or> classification r = Important)
       (fst (classifyBatch emails autoUnsub))"
proof -
  let ?rs = "map classifyEmail emails"
  let ?stats = "snd (classifyBatch emails autoUnsub)"
  have labels: "list_all (\<lambda>r. classification r = Marketing \<or> classification r = Important)
       (fst (classifyBatch emails autoUnsub))"
    unfolding list_all_iff
  proof
    fix r :: EmailResult
    show "classification r = Marketing \<or> classification r = Important"
      by (cases "classification r") simp_all
  qed
  have t: "stats_total ?stats = length ?rs"
    by (simp only: snd_classifyBatch Stats.select_convs length_map)
  have m: "stats_marketing ?stats = length (filter (\<lambda>r. classification r = Marketing) ?rs)"
    by (simp only: snd_classifyBatch Stats.select_convs)
  have i: "stats_important ?stats = length (filter (\<lambda>r. classification r = Important) ?rs)"
    by (simp only: snd_classifyBatch Stats.select_convs)
  have u: "stats_unsubscribed ?stats \<le> length (filter (\<lambda>r. classification r = Marketing) ?rs)"
    using count_conj_le [of "\<lambda>r. classification r = Marketing" "\<lambda>r. unsubscribeLink r \<noteq> None" ?rs]
    by (cases autoUnsub) (simp_all only: snd_classifyBatch Stats.select_convs if_True if_False le0)
  have "stats_total ?stats = length (fst (classifyBatch emails autoUnsub))"
    by (simp only: t length_fst_classifyBatch length_map)
  moreover have "stats_marketing ?stats + stats_important ?stats = stats_total ?stats"
    by (simp only: t m i count_two_labels)
  moreover have "stats_unsubscribed ?stats \<le> stats_marketing ?stats"
    using u by (simp only: m)
  ultimately show ?thesis using labels by blast
qed

text \<open>A batch of one marketing email with a link and one important email.\<close>

theorem stats_invariants_witness:
  "snd (classifyBatch [promoEmail, emptyEmail] True) =
     \<lparr> stats_total = 2, stats_marketing = 1, stats_important = 1, stats_unsubscribed = 1 \<rparr>
   \<and> length (fst (classifyBatch [promoEmail, emptyEmail] True)) = 2"
proof -
  have "snd (classifyBatch [promoEmail, emptyEmail] True) =
     \<lparr> stats_total = 2, stats_marketing = 1, stats_important = 1, stats_unsubscribed = 1 \<rparr>"
    by code_simp
  with stats_invariants [of "[promoEmail, emptyEmail]" True] show ?thesis by simp
qed

text \<open>
  C4. With the flag set, the results are those of the classifier with the action of
  exactly the marketing results that carry a link replaced by
  \<open>Successfully unsubscribed\<close>; the unsubscribed count is the number of these results,
  which is also the number of results that end with this action. With the flag
  unset, the results are those of the classifier unchanged and the count is zero.
\<close>

theorem auto_unsubscribe_rewrite:
  "fst (classifyBatch emails True) =
     map (\<lambda>r. if classification r = Marketing \<and> unsubscribeLink r \<noteq> None
              then r\<lparr> action := ''Successfully unsubscribed'' \<rparr> else r)
       (map classifyEmail emails)
   \<and> stats_unsubscribed (snd (classifyBatch emails True)) =
       length (filter (\<lambda>r. classification r = Marketing \<and> unsubscribeLink r \<noteq> None)
                 (map classifyEmail emails))
   \<and> length (filter (\<lambda>r. action r = ''Successfully unsubscribed'')
                (fst (classifyBatch emails True)))
       = stats_unsubscribed (snd (classifyBatch emails True))
   \<and> fst (classifyBatch emails False) = map classifyEmail emails
   \<and> stats_unsubscribed (snd (classifyBatch emails False)) = 0"
proof -
  let ?P = "\<lambda>r. classification r = Marketing \<and> unsubscribeLink r \<noteq> None"
  let ?g = "\<lambda>r. if ?P r then r\<lparr> action := ''Successfully unsubscribed'' \<rparr> else r"
  have "filter (\<lambda>r. action r = ''Successfully unsubscribed'') (map ?g (map classifyEmail emails))
      = map ?g (filter ?P (map classifyEmail emails))"
  proof (induction emails)
    case Nil
    show ?case by simp
  next
    case (Cons e emails)
    then show ?case using action_never_unsubscribed [of e] by simp
  qed
  then have "length (filter (\<lambda>r. action r = ''Successfully unsubscribed'')
                (map ?g (map classifyEmail emails)))
      = length (filter ?P (map classifyEmail emails))"
    by (simp only: length_map)
  then show ?thesis by (simp add: fst_classifyBatch snd_classifyBatch)
qed

text \<open>
  A marketing email with a link, an important one with a link and a marketing one
  without: only the first is rewritten.
\<close>

theorem auto_unsubscribe_rewrite_witness:
  "map action (fst (classifyBatch [promoEmail, billingEmail, plainWordEmail] True)) =
     [''Successfully unsubscribed'', ''Keep and respond professionally if needed'',
      ''Mark as spam or delete'']
   \<and> stats_unsubscribed (snd (classifyBatch [promoEmail, billingEmail, plainWordEmail] True)) = 1
   \<and> map action (fst (classifyBatch [promoEmail, billingEmail, plainWordEmail] False)) =
     [''Unsubscribe available'', ''Keep and respond professionally if needed'',
      ''Mark as spam or delete'']
   \<and> stats_unsubscribed (snd (classifyBatch [promoEmail, billingEmail, plainWordEmail] False)) = 0"
proof -
  have a: "map action (map classifyEmail [promoEmail, billingEmail, plainWordEmail]) =
     [''Unsubscribe available'', ''Keep and respond professionally if needed'',
      ''Mark as spam or delete'']"
    by code_simp
  have c: "map classification (map classifyEmail [promoEmail, billingEmail, plainWordEmail]) =
     [Marketing, Important, Marketing]"
    by code_simp
  have l: "map unsubscribeLink (map classifyEmail [promoEmail, billingEmail, plainWordEmail]) =
     [Some ''http://a/unsubscribe'', Some ''http://a/unsubscribe'', None]"
    by code_simp
  from auto_unsubscribe_rewrite [of "[promoEmail, billingEmail, plainWordEmail]"] a c l
  show ?thesis by simp
qed

text \<open>
  C5. Each entry of a keyword table adds one to its score when it occurs, letter case
  aside, in the subject or in the body, and one only when it occurs in both; the
  sender adds two to the marketing score when its lower-case form contains
  \<open>noreply\<close>, \<open>no-reply\<close> or \<open>marketing\<close>, and two to the important score when it
  contains \<open>admin\<close>, \<open>support\<close> or \<open>billing\<close>, two at most in either case. The
  marketing score has one more summand, three for a link found.
\<close>

theorem scores_count_entries:
  "marketingScore e =
     length (filter (\<lambda>k. occurs_ci k (email_subject e) \<or> occurs_ci k (email_body e))
               marketingKeywords)
     + (if sublist ''noreply'' (toLowerCase (email_from e))
           \<or> sublist ''no-reply'' (toLowerCase (email_from e))
           \<or> sublist ''marketing'' (toLowerCase (email_from e)) then 2 else 0)
     + (if unsubscribeLink (classifyEmail e) \<noteq> None then 3 else 0)
   \<and> importantScore e =
     length (filter (\<lambda>k. occurs_ci k (email_subject e) \<or> occurs_ci k (email_body e))
               importantKeywords)
     + (if sublist ''admin'' (toLowerCase (email_from e))
           \<or> sublist ''support'' (toLowerCase (email_from e))
           \<or> sublist ''billing'' (toLowerCase (email_from e)) then 2 else 0)"
  using marketingScore_eq [of e] importantScore_eq [of e]
  by (simp only: unsubscribeLink_classifyEmail str_includes_def)

text \<open>A sender with \<open>billing\<close> and a body with a link: two and three are added.\<close>

theorem scores_count_entries_witness:
  "marketingScore billingEmail =
     length (filter (\<lambda>k. occurs_ci k (email_subject billingEmail)
                          \<or> occurs_ci k (email_body billingEmail)) marketingKeywords) + 0 + 3
   \<and> importantScore billingEmail =
     length (filter (\<lambda>k. occurs_ci k (email_subject billingEmail)
                          \<or> occurs_ci k (email_body billingEmail)) importantKeywords) + 2"
proof -
  have "\<not> (sublist ''noreply'' (toLowerCase (email_from billingEmail))
           \<or> sublist ''no-reply'' (toLowerCase (email_from billingEmail))
           \<or> sublist ''marketing'' (toLowerCase (email_from billingEmail)))"
    by code_simp
  moreover have "sublist ''billing'' (toLowerCase (email_from billingEmail))"
    by code_simp
  moreover have "unsubscribeLink (classifyEmail billingEmail) \<noteq> None"
    by code_simp
  ultimately show ?thesis using scores_count_entries [of billingEmail] by simp
qed

text \<open>
  C6. When the body holds the word \<open>unsubscribe\<close> but no part of it follows the
  grammar of a link, the result has no link, the marketing score gets no three for a
  link, and \<open>unsubscribe\<close> is among the table entries counted. The grammar asks for
  at least one unit between \<open>://\<close> and the word, as the pattern does. A grammar that
  allows none there admits more links, so a body with no link of that wider grammar
  has none of this one.
\<close>

theorem plain_word_no_link:
  assumes "occurs_ci ''unsubscribe'' (email_body e)"
    and "\<not> containsUnsubscribeUrl (email_body e)"
  shows "unsubscribeLink (classifyEmail e) = None
    \<and> ''unsubscribe'' \<in> set (filter (\<lambda>k. occurs_ci k (email_subject e) \<or> occurs_ci k (email_body e))
                               marketingKeywords)
    \<and> marketingScore e =
        length (filter (\<lambda>k. occurs_ci k (email_subject e) \<or> occurs_ci k (email_body e))
                  marketingKeywords)
        + (if sublist ''noreply'' (toLowerCase (email_from e))
              \<or> sublist ''no-reply'' (toLowerCase (email_from e))
              \<or> sublist ''marketing'' (toLowerCase (email_from e)) then 2 else 0)"
proof -
  from assms(2) have none: "foundLink e = None" by (simp add: foundLink_None_iff)
  have "''unsubscribe'' \<in> set marketingKeywords" by (simp add: marketingKeywords_def)
  with assms(1) have "''unsubscribe'' \<in> set (filter (\<lambda>k. occurs_ci k (email_subject e)
      \<or> occurs_ci k (email_body e)) marketingKeywords)"
    by simp
  moreover from none have "unsubscribeLink (classifyEmail e) = None"
    by (simp add: unsubscribeLink_classifyEmail)
  moreover from none have "marketingScore e =
        length (filter (\<lambda>k. occurs_ci k (email_subject e) \<or> occurs_ci k (email_body e))
                  marketingKeywords)
        + (if sublist ''noreply'' (toLowerCase (email_from e))
              \<or> sublist ''no-reply'' (toLowerCase (email_from e))
              \<or> sublist ''marketing'' (toLowerCase (email_from e)) then 2 else 0)"
    using marketingScore_eq [of e] by (simp add: str_includes_def)
  ultimately show ?thesis by blast
qed

text \<open>
  The body \<open>Reply to unsubscribe\<close>: no link, and a marketing score of two, one for
  \<open>unsubscribe\<close> and one for \<open>subscribe\<close>.
\<close>

theorem plain_word_no_link_witness:
  "occurs_ci ''unsubscribe'' (email_body plainWordEmail)
   \<and> \<not> containsUnsubscribeUrl (email_body plainWordEmail)
   \<and> unsubscribeLink (classifyEmail plainWordEmail) = None
   \<and> marketingScore plainWordEmail = 2"
proof -
  have "str_includes (toLowerCase (email_body plainWordEmail)) ''unsubscribe''" by code_simp
  then have h1: "occurs_ci ''unsubscribe'' (email_body plainWordEmail)"
    using str_includes_toLowerCase [of "email_body plainWordEmail" "''unsubscribe''"] by blast
  have "foundLink plainWordEmail = None" by code_simp
  then have h2: "\<not> containsUnsubscribeUrl (email_body plainWordEmail)"
    using foundLink_None_iff [of plainWordEmail] by simp
  have "marketingScore plainWordEmail = 2" by code_simp
  with h1 h2 plain_word_no_link [OF h1 h2] show ?thesis by blast
qed

text \<open>
  C7. The claim reads: the result carries a link exactly when the link search of the
  specification finds one in the body, whatever the label. In the grammar of the
  specification the run before the word may be empty; the pattern asks for one unit
  at least. For the body \<open>https://unsubscribe.example.com/u?id=1\<close> the grammar of
  the specification has a link and the result carries none.
\<close>

theorem link_absent_for_host_counterexample:
  "containsSpecUnsubscribeUrl (email_body hostEmail)
   \<and> unsubscribeLink (classifyEmail hostEmail) = None"
proof -
  have b: "email_body hostEmail = ''https://'' @ [] @ ''unsubscribe'' @ ''.example.com/u?id=1''"
    by (simp add: hostEmail_def)
  have "eq_ci ''https://'' ''https://''" "eq_ci ''unsubscribe'' ''unsubscribe''"
    by (simp_all add: eq_ci_def)
  moreover have "list_all (\<lambda>c. c \<notin> set whiteSpace) ([] @ ''.example.com/u?id=1'')"
    by code_simp
  ultimately have "specUnsubscribeUrl (email_body hostEmail)"
    unfolding specUnsubscribeUrl_def using b by blast
  then have "containsSpecUnsubscribeUrl (email_body hostEmail)"
    unfolding containsSpecUnsubscribeUrl_def by blast
  moreover have "unsubscribeLink (classifyEmail hostEmail) = None" by code_simp
  ultimately show ?thesis by blast
qed

text \<open>
  C7 as amended. The result carries a link exactly when the body holds a part that
  follows the grammar of the pattern, with at least one unit that is not white space
  between \<open>://\<close> and the word, whatever the label of the result.
\<close>

theorem link_present_iff_found:
  "(unsubscribeLink (classifyEmail e) \<noteq> None) = containsUnsubscribeUrl (email_body e)"
  by (simp add: unsubscribeLink_classifyEmail foundLink_None_iff)

text \<open>An important email that carries its link, and an email without one.\<close>

theorem link_present_iff_found_witness:
  "classification (classifyEmail billingEmail) = Important
   \<and> containsUnsubscribeUrl (email_body billingEmail)
   \<and> unsubscribeLink (classifyEmail billingEmail) \<noteq> None
   \<and> \<not> containsUnsubscribeUrl (email_body plainWordEmail)
   \<and> unsubscribeLink (classifyEmail plainWordEmail) = None"
proof -
  have c: "classification (classifyEmail billingEmail) = Important" by code_simp
  have "foundLink billingEmail \<noteq> None" by code_simp
  then have h1: "containsUnsubscribeUrl (email_body billingEmail)"
    using foundLink_None_iff [of billingEmail] by simp
  have "foundLink plainWordEmail = None" by code_simp
  then have h2: "\<not> containsUnsubscribeUrl (email_body plainWordEmail)"
    using foundLink_None_iff [of plainWordEmail] by simp
  from c h1 h2 link_present_iff_found [of billingEmail] link_present_iff_found [of plainWordEmail]
  show ?thesis by simp
qed

text \<open>
  C8. Called with a well-formed object, \<open>classifyEmail\<close> raises no error: it returns
  a result whose label is one of the two strings \<open>marketing\<close> and \<open>important\<close>, whose
  identifier, sender, subject and date are those of the object, whose action is one of
  the three action texts and whose reason is not empty. The iterations of the function
  are recursions over a table or over the body, each accepted with its termination.
\<close>

theorem classifyEmail_never_raises:
  assumes "wellFormed obj"
  shows "\<exists>r. classifyEmail_js obj = Inr r
    \<and> (res_classification r = ''marketing'' \<or> res_classification r = ''important'')
    \<and> res_id r = obj_id obj \<and> res_from r = obj_from obj
    \<and> res_subject r = obj_subject obj \<and> res_date r = obj_date obj
    \<and> res_action r \<in> set [''Unsubscribe available'', ''Mark as spam or delete'',
          ''Keep and respond professionally if needed'']
    \<and> res_reason r \<noteq> []"
proof -
  from assms obtain e where e: "asEmailData obj = Some e"
    using wellFormed_asEmailData by blast
  let ?r = "asResultObject (classifyEmail e)"
  have run: "classifyEmail_js obj = Inr ?r" using e by (rule classifyEmail_js_typed)
  have "res_classification ?r = ''marketing'' \<or> res_classification ?r = ''important''"
    by (cases "classification (classifyEmail e)") (simp_all add: asResultObject_def)
  moreover have "res_id ?r = obj_id obj" "res_from ?r = obj_from obj"
    "res_subject ?r = obj_subject obj" "res_date ?r = obj_date obj"
    using asEmailData_fields [OF e] by (simp_all add: asResultObject_def copied_classifyEmail)
  moreover have "res_action ?r \<in> set [''Unsubscribe available'', ''Mark as spam or delete'',
          ''Keep and respond professionally if needed'']"
    by (simp add: asResultObject_def action_classifyEmail)
  moreover have "res_reason ?r \<noteq> []"
    by (simp add: asResultObject_def reason_classifyEmail)
  ultimately have "classifyEmail_js obj = Inr ?r
    \<and> (res_classification ?r = ''marketing'' \<or> res_classification ?r = ''important'')
    \<and> res_id ?r = obj_id obj \<and> res_from ?r = obj_from obj
    \<and> res_subject ?r = obj_subject obj \<and> res_date ?r = obj_date obj
    \<and> res_action ?r \<in> set [''Unsubscribe available'', ''Mark as spam or delete'',
          ''Keep and respond professionally if needed'']
    \<and> res_reason ?r \<noteq> []"
    using run by (simp only: simp_thms)
  then show ?thesis by (rule exI)
qed

text \<open>
  A well-formed object and its whole result, labelled marketing with a score of 8;
  the same object with a number for its body makes the call raise.
\<close>

theorem classifyEmail_never_raises_witness:
  "wellFormed saleObject
   \<and> classifyEmail_js saleObject =
       Inr \<lparr> res_id = Some (JStr ''7''), res_from = Some (JStr ''noreply@shop.com''),
             res_subject = Some (JStr ''Sale''),
             res_date = Some (JStr ''2026-01-01T00:00:00.000Z''),
             res_classification = ''marketing'', res_action = ''Unsubscribe available'',
             res_reason = ''Marketing email detected (score: 8). Contains promotional content.'',
             res_unsubscribeLink = Some ''http://a/unsubscribe'' \<rparr>
   \<and> classifyEmail_js numberObject = Inl TypeError"
proof -
  have w: "wellFormed saleObject" by code_simp
  have v: "classifyEmail_js saleObject =
       Inr \<lparr> res_id = Some (JStr ''7''), res_from = Some (JStr ''noreply@shop.com''),
             res_subject = Some (JStr ''Sale''),
             res_date = Some (JStr ''2026-01-01T00:00:00.000Z''),
             res_classification = ''marketing'', res_action = ''Unsubscribe available'',
             res_reason = ''Marketing email detected (score: 8). Contains promotional content.'',
             res_unsubscribeLink = Some ''http://a/unsubscribe'' \<rparr>"
    by code_simp
  have n: "classifyEmail_js numberObject = Inl TypeError" by code_simp
  from classifyEmail_never_raises [OF w] w v n show ?thesis by simp
qed

text \<open>
  C9. The claim reads: the number of emails processed is the bound
  \<open>min(parseInt(maxEmails) || 50, 100)\<close>. For \<open>maxEmails = "-5"\<close> the bound is \<open>-5\<close> and
  no email is processed.
\<close>

theorem batch_size_negative_counterexample:
  "batchSize negativeConfig = - 5
   \<and> POST noDate stoppedClock (Inr negativeConfig) = Analysis [] noStats"
proof -
  have b: "batchSize negativeConfig = - 5" by code_simp
  have "generateDemoEmails noDate stoppedClock (- 5) = []" by code_simp
  moreover have "autoUnsubscribe negativeConfig = False" by (simp add: negativeConfig_def)
  moreover have "classifyBatch [] False = ([], noStats)"
    by (simp add: classifyBatch_def noStats_def)
  ultimately show ?thesis using b by (simp add: POST_Inr)
qed

text \<open>
  C9 as amended. For every request whose body yields a configuration, the number of
  emails processed, which is the number of results, is the bound when the bound is not
  negative and zero when it is; it never exceeds 100, and it is 50 when \<open>maxEmails\<close>
  is absent or \<open>parseInt\<close> finds no number in it.
\<close>

theorem batch_size:
  "\<exists>results stats.
      POST toISO now (Inr config) = Analysis results stats
      \<and> int (length results) = max 0 (batchSize config)
      \<and> length results \<le> 100
      \<and> (parseInt (toString (maxEmails config)) = None \<longrightarrow> length results = 50)
      \<and> (maxEmails config = None \<longrightarrow> length results = 50)"
proof -
  let ?results = "fst (classifyBatch (generateDemoEmails toISO now (batchSize config))
                    (autoUnsubscribe config))"
  have len: "length ?results = nat (batchSize config)"
    by (simp add: length_fst_classifyBatch length_generateDemoEmails)
  have u: "parseInt ''undefined'' = None" by code_simp
  have nan: "parseInt (toString (maxEmails config)) = None \<Longrightarrow> batchSize config = 50"
    by (simp add: batchSize_def orFifty_def)
  have "int (length ?results) = max 0 (batchSize config)" using len by simp
  moreover have "length ?results \<le> 100" using len batchSize_le [of config] by simp
  moreover have d: "parseInt (toString (maxEmails config)) = None \<longrightarrow> length ?results = 50"
  proof
    assume a: "parseInt (toString (maxEmails config)) = None"
    have "nat (batchSize config) = 50" using nan [OF a] by simp
    with len show "length ?results = 50" by (simp only:)
  qed
  moreover have "maxEmails config = None \<longrightarrow> length ?results = 50"
  proof
    assume "maxEmails config = None"
    then have "parseInt (toString (maxEmails config)) = None" using u by (simp add: toString_def)
    with d show "length ?results = 50" by blast
  qed
  ultimately have all:
    "POST toISO now (Inr config) = Analysis ?results
        (snd (classifyBatch (generateDemoEmails toISO now (batchSize config))
                (autoUnsubscribe config)))
     \<and> int (length ?results) = max 0 (batchSize config)
     \<and> length ?results \<le> 100
     \<and> (parseInt (toString (maxEmails config)) = None \<longrightarrow> length ?results = 50)
     \<and> (maxEmails config = None \<longrightarrow> length ?results = 50)"
    using POST_Inr [of toISO now config] by (simp only: simp_thms)
  show ?thesis by (intro exI) (rule all)
qed

text \<open>The value \<open>many\<close> holds no number: fifty emails are processed.\<close>

theorem batch_size_witness:
  "parseInt (toString (maxEmails wordConfig)) = None
   \<and> (\<exists>results stats. POST noDate stoppedClock (Inr wordConfig) = Analysis results stats
        \<and> length results = 50)"
proof -
  have h: "parseInt (toString (maxEmails wordConfig)) = None" by code_simp
  with batch_size [of noDate stoppedClock wordConfig] show ?thesis by blast
qed

text \<open>
  C10. Two emails with the same sender, subject and body get the same label, action,
  reason and link, whatever their headers, identifiers and dates; identifier, sender,
  subject and date of each result are those of its own email.
\<close>

theorem headers_not_read:
  assumes "email_from a = email_from b" and "email_subject a = email_subject b"
    and "email_body a = email_body b"
  shows "classification (classifyEmail a) = classification (classifyEmail b)
    \<and> action (classifyEmail a) = action (classifyEmail b)
    \<and> reason (classifyEmail a) = reason (classifyEmail b)
    \<and> unsubscribeLink (classifyEmail a) = unsubscribeLink (classifyEmail b)
    \<and> result_id (classifyEmail a) = email_id a \<and> result_id (classifyEmail b) = email_id b
    \<and> result_from (classifyEmail a) = email_from a \<and> result_from (classifyEmail b) = email_from b
    \<and> result_subject (classifyEmail a) = email_subject a
    \<and> result_subject (classifyEmail b) = email_subject b
    \<and> result_date (classifyEmail a) = email_date a \<and> result_date (classifyEmail b) = email_date b"
proof -
  from assms have "scores a = scores b" by (rule scores_cong)
  then show ?thesis by (simp add: classifyEmail_def Let_def split: prod.splits)
qed

text \<open>Two emails that differ in identifier, date and headers only.\<close>

theorem headers_not_read_witness:
  "email_headers billingEmail \<noteq> email_headers billingEmailCopy
   \<and> email_id billingEmail \<noteq> email_id billingEmailCopy
   \<and> email_date billingEmail \<noteq> email_date billingEmailCopy
   \<and> classification (classifyEmail billingEmail) = classification (classifyEmail billingEmailCopy)
   \<and> action (classifyEmail billingEmail) = action (classifyEmail billingEmailCopy)
   \<and> reason (classifyEmail billingEmail) = reason (classifyEmail billingEmailCopy)
   \<and> unsubscribeLink (classifyEmail billingEmail) = unsubscribeLink (classifyEmail billingEmailCopy)
   \<and> result_id (classifyEmail billingEmailCopy) = ''2''"
proof -
  have h: "email_from billingEmail = email_from billingEmailCopy"
    "email_subject billingEmail = email_subject billingEmailCopy"
    "email_body billingEmail = email_body billingEmailCopy"
    by (simp_all add: billingEmailCopy_def)
  have d: "email_headers billingEmail \<noteq> email_headers billingEmailCopy"
    "email_id billingEmail \<noteq> email_id billingEmailCopy"
    "email_date billingEmail \<noteq> email_date billingEmailCopy"
    "email_id billingEmailCopy = ''2''"
    by (simp_all add: billingEmailCopy_def billingEmail_def emptyEmail_def)
  from headers_not_read [OF h] d show ?thesis by simp
qed

end
